theory Spec2Isabelle
  imports Complex_Main "HOL-Library.AList"
begin

section \<open>JavaScript values\<close>

text \<open>
  The values the import and export code works on are those \<^verbatim>\<open>JSON.parse\<close> returns
  and those the application builds from them: null, booleans, numbers, strings, arrays
  and objects. A number is finite (\<open>JNum\<close>) or one of the three values that are not
  (\<open>JNonFinite\<close>); \<^verbatim>\<open>JSON.parse\<close> reads a literal beyond the range of the doubles,
  such as \<^verbatim>\<open>1e999\<close>, as an infinity. An object is the list of its own properties in
  the order of their enumeration; a key that occurs again further down the list is
  shadowed by its first occurrence. Strings are the UTF-8 bytes of the JavaScript string,
  so equality and concatenation agree with the source. \<^verbatim>\<open>undefined\<close> is never
  stored in these values: a property read that finds nothing yields \<open>None\<close>.
\<close>

datatype nonFinite = Infinity | MinusInfinity | NaN

datatype json =
    JNull
  | JBool bool
  | JNum real
  | JNonFinite nonFinite
  | JStr string
  | JArr "json list"
  | JObj "(string \<times> json) list"

datatype error =
    FileReadFailed
  | JsonSyntaxError
  | TypeError
  | InvalidBookshelfFormat
  | NoValidBooks
  | BookNotFound
  | InvalidBookFormat

text \<open>
  The constructors of \<open>error\<close> stand for what the module raises: the rejected promise of
  \<^verbatim>\<open>readFileAsText\<close>, the \<^verbatim>\<open>SyntaxError\<close> of \<^verbatim>\<open>JSON.parse\<close>, the
  \<^verbatim>\<open>TypeError\<close> of a property read on \<^verbatim>\<open>null\<close>, and the four
  \<^verbatim>\<open>new Error(...)\<close> of \<^verbatim>\<open>uploadBookshelf\<close> and \<^verbatim>\<open>uploadSingleBook\<close>
  (bookshelf data has the wrong format; no valid book data found; book data not found;
  book data has the wrong format), in the order of the source.
\<close>

text \<open>\<^verbatim>\<open>if (v)\<close>, \<^verbatim>\<open>!v\<close>, \<^verbatim>\<open>v || d\<close>: the truth value of a JavaScript value.\<close>

fun truthy :: "json \<Rightarrow> bool" where
  "truthy JNull = False"
| "truthy (JBool b) = b"
| "truthy (JNum n) = (n \<noteq> 0)"
| "truthy (JNonFinite n) = (n \<noteq> NaN)"
| "truthy (JStr s) = (s \<noteq> [])"
| "truthy (JArr xs) = True"
| "truthy (JObj kvs) = True"

definition truthyProp :: "json option \<Rightarrow> bool" where
  "truthyProp p = (case p of None \<Rightarrow> False | Some v \<Rightarrow> truthy v)"

fun typeof :: "json option \<Rightarrow> string" where
  "typeof None = ''undefined''"
| "typeof (Some JNull) = ''object''"
| "typeof (Some (JBool b)) = ''boolean''"
| "typeof (Some (JNum n)) = ''number''"
| "typeof (Some (JNonFinite n)) = ''number''"
| "typeof (Some (JStr s)) = ''string''"
| "typeof (Some (JArr xs)) = ''object''"
| "typeof (Some (JObj kvs)) = ''object''"

fun isArray :: "json option \<Rightarrow> bool" where
  "isArray (Some (JArr xs)) = True"
| "isArray _ = False"

text \<open>
  \<open>property v k\<close> is the property read \<^verbatim>\<open>v.k\<close> on a value that is not
  \<^verbatim>\<open>null\<close>, for the keys this program reads (\<^verbatim>\<open>book\<close>, \<^verbatim>\<open>books\<close>,
  \<^verbatim>\<open>id\<close>, \<^verbatim>\<open>title\<close>, \<^verbatim>\<open>coverData\<close>, \<^verbatim>\<open>pages\<close>,
  \<^verbatim>\<open>createdAt\<close>, \<^verbatim>\<open>updatedAt\<close>): none of them is a built-in property of an array,
  a string, a number or a boolean, so only an object can have one. \<open>getProp\<close> is the
  read on a value of type \<^verbatim>\<open>any\<close>, which throws on \<^verbatim>\<open>null\<close>.
\<close>

fun property :: "json \<Rightarrow> string \<Rightarrow> json option" where
  "property (JObj kvs) k = map_of kvs k"
| "property _ k = None"

fun getProp :: "json \<Rightarrow> string \<Rightarrow> error + json option" where
  "getProp JNull k = Inl TypeError"
| "getProp v k = Inr (property v k)"

text \<open>\<^verbatim>\<open>n.toString()\<close> for an integral number below \<open>10^21\<close> in magnitude (every
  value of \<^verbatim>\<open>Date.now()\<close> is): the decimal digits, with a sign when negative.\<close>

function digits :: "nat \<Rightarrow> string" where
  "digits n = (if n < 10 then [''0123456789'' ! n]
               else digits (n div 10) @ [''0123456789'' ! (n mod 10)])"
  by pat_completeness auto
termination
  by (relation "measure (\<lambda>n. n)") auto

declare digits.simps [simp del]

definition toString :: "int \<Rightarrow> string" where
  "toString i = (if i < 0 then CHR ''-'' # digits (nat (- i)) else digits (nat i))"

subsection \<open>JSON text\<close>

text \<open>
  The text of a JSON document, by its syntax tree. A number literal within the range of
  the doubles is given by the number it is read as; \<open>TOutOfRange\<close> is a literal beyond
  that range, negative when the flag is set. The members of an object are in the order of
  the text, and a text may give a key more than once.
\<close>

datatype jsonText =
    TNull
  | TBool bool
  | TNum real
  | TOutOfRange bool
  | TStr string
  | TArr "jsonText list"
  | TObj "(string \<times> jsonText) list"

text \<open>
  \<^verbatim>\<open>JSON.stringify\<close> (the indentation it is asked for does not change the syntax
  tree). A finite number is written as the literal that reads as this number, a number
  that is not finite as \<^verbatim>\<open>null\<close>, and an object with its properties in their
  order, each key once.
\<close>

fun stringify :: "json \<Rightarrow> jsonText" where
  "stringify JNull = TNull"
| "stringify (JBool b) = TBool b"
| "stringify (JNum n) = TNum n"
| "stringify (JNonFinite n) = TNull"
| "stringify (JStr s) = TStr s"
| "stringify (JArr vs) = TArr (map stringify vs)"
| "stringify (JObj kvs) = TObj (AList.clearjunk (map (\<lambda>(k, v). (k, stringify v)) kvs))"

text \<open>
  \<^verbatim>\<open>JSON.parse\<close> on a text that is JSON. The members of an object are defined one
  after the other on an object that is empty at first: a key given again takes the new
  value and keeps its place.
\<close>

definition defineProperties :: "(string \<times> json) list \<Rightarrow> (string \<times> json) list" where
  "defineProperties kvs = foldl (\<lambda>obj (k, v). AList.update k v obj) [] kvs"

fun jsonParse :: "jsonText \<Rightarrow> json" where
  "jsonParse TNull = JNull"
| "jsonParse (TBool b) = JBool b"
| "jsonParse (TNum n) = JNum n"
| "jsonParse (TOutOfRange negative) = JNonFinite (if negative then MinusInfinity else Infinity)"
| "jsonParse (TStr s) = JStr s"
| "jsonParse (TArr ts) = JArr (map jsonParse ts)"
| "jsonParse (TObj kts) = JObj (defineProperties (map (\<lambda>(k, t). (k, jsonParse t)) kts))"

section \<open>Import and export of books (utils/bookExport)\<close>

definition EXPORT_VERSION :: string where
  "EXPORT_VERSION = ''1.0''"

text \<open>
  The export objects \<^verbatim>\<open>exportData\<close> of the two download functions, of the types
  \<^verbatim>\<open>BookshelfExport\<close> and \<^verbatim>\<open>SingleBookExport\<close>. The first argument is the
  reading of \<^verbatim>\<open>Date.now()\<close>.
\<close>

definition bookshelfExport :: "int \<Rightarrow> json list \<Rightarrow> json" where
  "bookshelfExport now books =
     JObj [(''version'', JStr EXPORT_VERSION),
           (''exportedAt'', JNum (of_int now)),
           (''books'', JArr books)]"

definition singleBookExport :: "int \<Rightarrow> json \<Rightarrow> json" where
  "singleBookExport now book =
     JObj [(''version'', JStr EXPORT_VERSION),
           (''exportedAt'', JNum (of_int now)),
           (''book'', book)]"

text \<open>
  \<^verbatim>\<open>downloadBookshelf\<close> and \<^verbatim>\<open>downloadSingleBook\<close> build the export object, serialise
  it and hand the text to the browser as a file. The result here is the text of that
  file. The name of the file and the anchor element that triggers the download are not
  part of the model.
\<close>

definition downloadBookshelf :: "int \<Rightarrow> json list \<Rightarrow> jsonText" where
  "downloadBookshelf now books = stringify (bookshelfExport now books)"

definition downloadSingleBook :: "int \<Rightarrow> json \<Rightarrow> jsonText" where
  "downloadSingleBook now book = stringify (singleBookExport now book)"

text \<open>
  A file chosen for upload, as \<^verbatim>\<open>readFileAsText\<close> followed by \<^verbatim>\<open>JSON.parse\<close>
  sees it: the read fails, the text is not JSON, or the text parses to a value.
\<close>

datatype upload = Unreadable | Malformed | Json json

definition parseFile :: "upload \<Rightarrow> error + json" where
  "parseFile f = (case f of
       Unreadable \<Rightarrow> Inl FileReadFailed
     | Malformed \<Rightarrow> Inl JsonSyntaxError
     | Json data \<Rightarrow> Inr data)"

text \<open>A downloaded file chosen for upload: it can be read, and its text \<open>t\<close> parses to
  \<open>jsonParse t\<close>.\<close>

definition savedFile :: "jsonText \<Rightarrow> upload" where
  "savedFile t = Json (jsonParse t)"

definition validateBook :: "json \<Rightarrow> bool" where
  "validateBook book =
     (if \<not> truthy book \<or> typeof (Some book) \<noteq> ''object'' then False
      else typeof (property book ''id'') = ''string'' \<and>
           typeof (property book ''title'') = ''string'' \<and>
           property book ''coverData'' \<noteq> None \<and>
           isArray (property book ''pages'') \<and>
           typeof (property book ''createdAt'') = ''number'' \<and>
           typeof (property book ''updatedAt'') = ''number'')"

text \<open>
  The replacement id \<^verbatim>\<open>Date.now().toString() + Math.random().toString(36).slice(2)\<close>.
  The clock and the random generator are the environment: \<open>env k\<close> gives the clock
  reading and the random suffix of the \<open>k\<close>-th evaluation of that expression during one
  call (counted from 0). The code compares the new id with nothing.
\<close>

type_synonym idSource = "nat \<Rightarrow> int \<times> string"

definition newId :: "int \<times> string \<Rightarrow> string" where
  "newId e = toString (fst e) @ snd e"

text \<open>Every generated id begins with the clock reading in decimal, so with a digit or a
  minus sign. An id such as \<^verbatim>\<open>"x"\<close> does not begin like that.\<close>

definition beginsLikeNewId :: "string \<Rightarrow> bool" where
  "beginsLikeNewId x = (x \<noteq> [] \<and> hd x \<in> set ''-0123456789'')"

text \<open>\<^verbatim>\<open>{ ...book, id: s }\<close>: the own properties of \<open>book\<close> with \<^verbatim>\<open>id\<close> set to
  \<open>s\<close>. Only validated books, which are objects, reach it.\<close>

fun withId :: "json \<Rightarrow> string \<Rightarrow> json" where
  "withId (JObj kvs) s = JObj (AList.update ''id'' (JStr s) kvs)"
| "withId v s = JObj [(''id'', JStr s)]"

text \<open>
  \<^verbatim>\<open>existingBooks.map(b => b.id)\<close>. The parameter has type \<^verbatim>\<open>Book[]\<close>, whose
  elements are objects. \<^verbatim>\<open>existingIds.has(book.id)\<close> is membership in this list:
  the id of a validated book is a string, and strings are compared by content.
\<close>

definition bookId :: "json \<Rightarrow> json option" where
  "bookId b = property b ''id''"

definition existingIds :: "json list \<Rightarrow> json option list" where
  "existingIds existingBooks = map bookId existingBooks"

datatype importMode = Replace | Merge

text \<open>The \<^verbatim>\<open>validBooks.map\<close> of merge mode; \<open>k\<close> counts the ids generated so far.\<close>

fun mergeBooks :: "json option list \<Rightarrow> idSource \<Rightarrow> nat \<Rightarrow> json list \<Rightarrow> json list" where
  "mergeBooks ids env k [] = []"
| "mergeBooks ids env k (book # rest) =
     (if bookId book \<in> set ids
      then withId book (newId (env k)) # mergeBooks ids env (Suc k) rest
      else book # mergeBooks ids env k rest)"

text \<open>
  \<^verbatim>\<open>uploadBookshelf\<close> resolves to \<^verbatim>\<open>{ books, importedCount }\<close>, here the pair of the
  two, or rejects with an error.
\<close>

definition uploadBookshelf ::
  "upload \<Rightarrow> json list \<Rightarrow> importMode \<Rightarrow> idSource \<Rightarrow> error + json list \<times> nat" where
  "uploadBookshelf f existingBooks m env =
     (case parseFile f of
        Inl e \<Rightarrow> Inl e
      | Inr data \<Rightarrow>
         (case getProp data ''books'' of
            Inl e \<Rightarrow> Inl e
          | Inr bs \<Rightarrow>
             (if \<not> truthyProp bs \<or> \<not> isArray bs then Inl InvalidBookshelfFormat
              else
                let validBooks = filter validateBook (case bs of Some (JArr xs) \<Rightarrow> xs | _ \<Rightarrow> [])
                in if length validBooks = 0 then Inl NoValidBooks
                   else if m = Replace
                   then Inr (validBooks, length validBooks)
                   else
                     let mergedBooks = mergeBooks (existingIds existingBooks) env 0 validBooks
                     in Inr (existingBooks @ mergedBooks, length mergedBooks))))"

text \<open>The candidate of a single-book import: \<^verbatim>\<open>data.book\<close> when it is truthy,
  else the first element of \<^verbatim>\<open>data.books\<close> when that is a non-empty array, else an
  error. \<open>b\<close> is the value read from \<^verbatim>\<open>data.book\<close>.\<close>

definition firstOfBooks :: "json \<Rightarrow> error + json" where
  "firstOfBooks data =
     (case property data ''books'' of
        Some (JArr (first # rest)) \<Rightarrow> Inr first
      | _ \<Rightarrow> Inl BookNotFound)"

definition candidateBook :: "json \<Rightarrow> json option \<Rightarrow> error + json" where
  "candidateBook data b =
     (case b of
        Some book \<Rightarrow> if truthy book then Inr book else firstOfBooks data
      | None \<Rightarrow> firstOfBooks data)"

text \<open>
  \<^verbatim>\<open>uploadSingleBook\<close> resolves to \<^verbatim>\<open>{ books, importedBook }\<close>, here the pair of the
  two, or rejects with an error.
\<close>

definition uploadSingleBook ::
  "upload \<Rightarrow> json list \<Rightarrow> idSource \<Rightarrow> error + json list \<times> json" where
  "uploadSingleBook f existingBooks env =
     (case parseFile f of
        Inl e \<Rightarrow> Inl e
      | Inr data \<Rightarrow>
         (case getProp data ''book'' of
            Inl e \<Rightarrow> Inl e
          | Inr b \<Rightarrow>
             (case candidateBook data b of
                Inl e \<Rightarrow> Inl e
              | Inr book \<Rightarrow>
                 if \<not> validateBook book then Inl InvalidBookFormat
                 else
                   let importedBook =
                         (if bookId book \<in> set (existingIds existingBooks)
                          then withId book (newId (env 0))
                          else book)
                   in Inr (importedBook # existingBooks, importedBook))))"

section \<open>The generation client (services/geminiService)\<close>

text \<open>
  What a rejected promise carries: an \<^verbatim>\<open>Error\<close> object with its message, or any other
  thrown value.
\<close>

datatype thrown = ErrorObject string | NonError

text \<open>
  The prompts sent to the text model are template strings: fixed Japanese text with the
  values of the call filled in. A prompt is kept as its template and the values filled
  in. For the story prompt these are the theme, the page number, the number of pages,
  the earlier page texts (rendered under a heading and joined by blank lines when there
  are any) and the part of the story asked for; for the illustration prompt the theme,
  the story text and the descriptions of the reference images; for the analysis of a
  reference image its mime type and its base64 payload.
\<close>

datatype storyPart = Beginning | Ending | Development

datatype prompt =
    StoryPrompt string nat nat "string list" storyPart
  | IllustrationPrompt string string "string list"
  | StylePrompt string string

record imageRequest =
  model :: string
  contents :: string
  responseModalities :: "string list"
  imageConfig :: "(string \<times> string) option"

text \<open>
  The answer of the image model, as far as \<^verbatim>\<open>generateImage\<close> reads it: optional
  candidates, each with an optional content, with optional parts, each with an optional
  \<^verbatim>\<open>inlineData\<close> of optional \<^verbatim>\<open>data\<close> and \<^verbatim>\<open>mimeType\<close>.
\<close>

record inlineData =
  inline_data :: "string option"
  inline_mimeType :: "string option"

record part =
  part_inlineData :: "inlineData option"

record content =
  parts :: "part list option"

record candidate =
  candidate_content :: "content option"

record response =
  candidates :: "candidate list option"

text \<open>
  The outside world is a state \<open>'w\<close> that every request reads and changes:
  \<open>textService key name p\<close> is \<^verbatim>\<open>generateContent\<close> on the text model \<open>name\<close>
  followed by \<^verbatim>\<open>response.text()\<close>, \<open>imageService key req\<close> is
  \<^verbatim>\<open>ai.models.generateContent(req)\<close>, \<open>dateNow\<close> is \<^verbatim>\<open>Date.now()\<close>.
\<close>

record 'w services =
  textService :: "string \<Rightarrow> string \<Rightarrow> prompt \<Rightarrow> 'w \<Rightarrow> (thrown + string) \<times> 'w"
  imageService :: "string \<Rightarrow> imageRequest \<Rightarrow> 'w \<Rightarrow> (thrown + response) \<times> 'w"
  dateNow :: "'w \<Rightarrow> int \<times> 'w"

definition generateStoryText ::
  "'w services \<Rightarrow> string \<Rightarrow> string \<Rightarrow> nat \<Rightarrow> nat \<Rightarrow> string list \<Rightarrow> string \<Rightarrow> 'w
   \<Rightarrow> (thrown + string) \<times> 'w" where
  "generateStoryText svc key thm pageNumber totalPages previousContent modelName w =
     textService svc key modelName
       (StoryPrompt thm pageNumber totalPages previousContent
          (if pageNumber = 1 then Beginning
           else if pageNumber = totalPages then Ending
           else Development)) w"

definition generateImagePrompt ::
  "'w services \<Rightarrow> string \<Rightarrow> string \<Rightarrow> string \<Rightarrow> string list \<Rightarrow> string \<Rightarrow> 'w
   \<Rightarrow> (thrown + string) \<times> 'w" where
  "generateImagePrompt svc key thm storyText baseImageDescriptions modelName w =
     textService svc key modelName (IllustrationPrompt thm storyText baseImageDescriptions) w"

definition fullPrompt :: "string \<Rightarrow> string" where
  "fullPrompt p =
     ''Children'' @ [CHR 0x27] @ ''s book illustration, cute and colorful style: '' @ p @
     ''. Style: watercolor, soft colors, child-friendly, storybook art, warm and gentle atmosphere.''"

definition modelConfig :: "string \<Rightarrow> string \<Rightarrow> imageRequest" where
  "modelConfig modelName p =
     \<lparr>model = modelName, contents = fullPrompt p,
      responseModalities = [''Text'', ''Image''],
      imageConfig = (if modelName = ''gemini-3-pro-image-preview''
                     then Some (''1:1'', ''1K'') else None)\<rparr>"

text \<open>\<^verbatim>\<open>response.candidates && response.candidates[0]?.content?.parts\<close>\<close>

definition responseParts :: "response \<Rightarrow> part list option" where
  "responseParts r =
     (case candidates r of
        None \<Rightarrow> None
      | Some [] \<Rightarrow> None
      | Some (c # cs) \<Rightarrow>
         (case candidate_content c of None \<Rightarrow> None | Some ct \<Rightarrow> parts ct))"

text \<open>The \<^verbatim>\<open>for\<close> loop over the parts: the first part that has \<^verbatim>\<open>inlineData\<close>.\<close>

fun firstInlineData :: "part list \<Rightarrow> inlineData option" where
  "firstInlineData [] = None"
| "firstInlineData (p # ps) =
     (case part_inlineData p of Some d \<Rightarrow> Some d | None \<Rightarrow> firstInlineData ps)"

text \<open>The data URL of the template string: a missing \<^verbatim>\<open>data\<close> is written as
  \<^verbatim>\<open>undefined\<close>, a missing or empty \<^verbatim>\<open>mimeType\<close> becomes \<^verbatim>\<open>image/png\<close>.\<close>

definition dataUrl :: "inlineData \<Rightarrow> string" where
  "dataUrl d =
     ''data:'' @
     (case inline_mimeType d of None \<Rightarrow> ''image/png''
      | Some m \<Rightarrow> if m = [] then ''image/png'' else m) @
     '';base64,'' @
     (case inline_data d of None \<Rightarrow> ''undefined'' | Some b \<Rightarrow> b)"

text \<open>The message of the error \<^verbatim>\<open>generateImage\<close> throws when the answer holds no
  image ("image data not found"), as UTF-8.\<close>

definition imageDataNotFound :: string where
  "imageDataNotFound =
     [CHR 0xE7, CHR 0x94, CHR 0xBB, CHR 0xE5, CHR 0x83, CHR 0x8F, CHR 0xE3, CHR 0x83, CHR 0x87,
      CHR 0xE3, CHR 0x83, CHR 0xBC, CHR 0xE3, CHR 0x82, CHR 0xBF, CHR 0xE3, CHR 0x81, CHR 0x8C,
      CHR 0xE8, CHR 0xA6, CHR 0x8B, CHR 0xE3, CHR 0x81, CHR 0xA4, CHR 0xE3, CHR 0x81, CHR 0x8B,
      CHR 0xE3, CHR 0x82, CHR 0x8A, CHR 0xE3, CHR 0x81, CHR 0xBE, CHR 0xE3, CHR 0x81, CHR 0x9B,
      CHR 0xE3, CHR 0x82, CHR 0x93]"

definition generateImage ::
  "'w services \<Rightarrow> string \<Rightarrow> string \<Rightarrow> string \<Rightarrow> 'w \<Rightarrow> (thrown + string) \<times> 'w" where
  "generateImage svc key p modelName w =
     (case imageService svc key (modelConfig modelName p) w of
        (Inl e, w') \<Rightarrow> (Inl e, w')
      | (Inr r, w') \<Rightarrow>
         (case responseParts r of
            None \<Rightarrow> (Inl (ErrorObject imageDataNotFound), w')
          | Some ps \<Rightarrow>
             (case firstInlineData ps of
                Some d \<Rightarrow> (Inr (dataUrl d), w')
              | None \<Rightarrow> (Inl (ErrorObject imageDataNotFound), w'))))"

text \<open>
  The match of \<^verbatim>\<open>/^data:(.+);base64,(.+)$/\<close>: after \<^verbatim>\<open>data:\<close> no line terminator
  (LF, CR, U+2028, U+2029) may occur, and the first group is greedy, so the text is cut
  at the last \<^verbatim>\<open>;base64,\<close> that leaves both groups non-empty.
\<close>

fun hasLineTerminator :: "string \<Rightarrow> bool" where
  "hasLineTerminator [] = False"
| "hasLineTerminator (c # cs) =
     (c = CHR 0x0A \<or> c = CHR 0x0D \<or>
      take 3 (c # cs) = [CHR 0xE2, CHR 0x80, CHR 0xA8] \<or>
      take 3 (c # cs) = [CHR 0xE2, CHR 0x80, CHR 0xA9] \<or>
      hasLineTerminator cs)"

fun lastSplit :: "string \<Rightarrow> string \<Rightarrow> (string \<times> string) option" where
  "lastSplit sep [] = None"
| "lastSplit sep (c # cs) =
     (case lastSplit sep cs of
        Some (a, b) \<Rightarrow> Some (c # a, b)
      | None \<Rightarrow>
         if take (length sep) (c # cs) = sep \<and> drop (length sep) (c # cs) \<noteq> []
         then Some ([], drop (length sep) (c # cs))
         else None)"

definition matchDataUrl :: "string \<Rightarrow> (string \<times> string) option" where
  "matchDataUrl s =
     (if take 5 s = ''data:'' \<and> \<not> hasLineTerminator (drop 5 s)
      then (case lastSplit '';base64,'' (drop 5 s) of
              Some (mimeType, base64Data) \<Rightarrow>
                if mimeType = [] then None else Some (mimeType, base64Data)
            | None \<Rightarrow> None)
      else None)"

text \<open>The loop of \<^verbatim>\<open>analyzeBaseImages\<close>; \<open>descriptions\<close> is the array it fills. An image
  that does not match is skipped, a failed request is logged and skipped.\<close>

fun analyzeLoop ::
  "'w services \<Rightarrow> string \<Rightarrow> string \<Rightarrow> string list \<Rightarrow> string list \<Rightarrow> 'w \<Rightarrow> string list \<times> 'w" where
  "analyzeLoop svc key modelName [] descriptions w = (descriptions, w)"
| "analyzeLoop svc key modelName (imageData # rest) descriptions w =
     (case matchDataUrl imageData of
        None \<Rightarrow> analyzeLoop svc key modelName rest descriptions w
      | Some (mimeType, base64Data) \<Rightarrow>
         (case textService svc key modelName (StylePrompt mimeType base64Data) w of
            (Inl e, w') \<Rightarrow> analyzeLoop svc key modelName rest descriptions w'
          | (Inr t, w') \<Rightarrow> analyzeLoop svc key modelName rest (descriptions @ [t]) w'))"

definition analyzeBaseImages ::
  "'w services \<Rightarrow> string \<Rightarrow> string list \<Rightarrow> string \<Rightarrow> 'w \<Rightarrow> string list \<times> 'w" where
  "analyzeBaseImages svc key images modelName w = analyzeLoop svc key modelName images [] w"

section \<open>The generation run (components/AIGenerator)\<close>

record storyPage =
  page_id :: string
  page_image :: "string option"
  page_imageScale :: real
  page_text :: string

record coverData =
  cover_image :: "string option"
  cover_imageScale :: real

text \<open>The messages of the progress display, in the order the run shows them; the two
  page messages carry the page index and the page count.\<close>

datatype progressMessage =
    Preparing
  | AnalyzingReferences
  | WritingStory nat nat
  | DrawingIllustration nat nat
  | MakingCover
  | Complete

record progress =
  current :: nat
  progress_total :: nat
  progress_message :: progressMessage

text \<open>What \<^verbatim>\<open>setError\<close> receives: the two fixed messages of the guards, the message of
  a caught \<^verbatim>\<open>Error\<close>, or the fixed message for any other thrown value.\<close>

datatype errorMessage =
    ApiKeyMissing
  | ThemeMissing
  | Message string
  | GenerationError

text \<open>
  The requests of one run, with their results, in the order they are made. The story
  text request carries the page number, the page count and the earlier texts it was
  given. A request for an illustration prompt or an image is marked with the page it is
  for, or the cover.
\<close>

datatype target = PageImage nat | CoverImage

datatype call =
    AnalysisCall "string list" "string list"
  | StoryTextCall nat nat "string list" "thrown + string"
  | ImagePromptCall target string "string list" "thrown + string"
  | ImageCall target string "thrown + string"

text \<open>
  The component: the outside world, the React state the run writes
  (\<^verbatim>\<open>isGenerating\<close>, \<^verbatim>\<open>error\<close>, \<^verbatim>\<open>progress\<close>), and three records of what
  the run does, kept to state its properties: every snapshot passed to
  \<^verbatim>\<open>setProgress\<close> (oldest first), the requests made, and the arguments of every call of
  the completion callback \<^verbatim>\<open>onGenerate\<close>.
\<close>

record 'w component =
  world :: 'w
  isGenerating :: bool
  error :: "errorMessage option"
  progress :: progress
  snapshots :: "progress list"
  calls :: "call list"
  onGenerate :: "(string \<times> coverData \<times> storyPage list) list"

text \<open>The state of the form when \<^verbatim>\<open>handleGenerate\<close> starts; \<open>apiKey\<close> is what
  \<^verbatim>\<open>getApiKey()\<close> returns.\<close>

record inputs =
  apiKey :: "string option"
  theme :: string
  pageCount :: nat
  baseImages :: "string list"
  textModel :: string
  imageModel :: string

text \<open>
  \<^verbatim>\<open>theme.trim()\<close> is empty exactly when nothing is left after the leading white space
  is dropped. White space is what \<^verbatim>\<open>trim\<close> removes: TAB, LF, VT, FF, CR, space,
  U+00A0, U+1680, U+2000 to U+200A, U+2028, U+2029, U+202F, U+205F, U+3000 and U+FEFF, in
  UTF-8.
\<close>

definition whiteSpace :: "string list" where
  "whiteSpace =
     [[CHR 0x09], [CHR 0x0A], [CHR 0x0B], [CHR 0x0C], [CHR 0x0D], [CHR 0x20],
      [CHR 0xC2, CHR 0xA0], [CHR 0xE1, CHR 0x9A, CHR 0x80],
      [CHR 0xE2, CHR 0x80, CHR 0x80], [CHR 0xE2, CHR 0x80, CHR 0x81],
      [CHR 0xE2, CHR 0x80, CHR 0x82], [CHR 0xE2, CHR 0x80, CHR 0x83],
      [CHR 0xE2, CHR 0x80, CHR 0x84], [CHR 0xE2, CHR 0x80, CHR 0x85],
      [CHR 0xE2, CHR 0x80, CHR 0x86], [CHR 0xE2, CHR 0x80, CHR 0x87],
      [CHR 0xE2, CHR 0x80, CHR 0x88], [CHR 0xE2, CHR 0x80, CHR 0x89],
      [CHR 0xE2, CHR 0x80, CHR 0x8A], [CHR 0xE2, CHR 0x80, CHR 0xA8],
      [CHR 0xE2, CHR 0x80, CHR 0xA9], [CHR 0xE2, CHR 0x80, CHR 0xAF],
      [CHR 0xE2, CHR 0x81, CHR 0x9F], [CHR 0xE3, CHR 0x80, CHR 0x80],
      [CHR 0xEF, CHR 0xBB, CHR 0xBF]]"

definition startsWithSpace :: "string \<Rightarrow> nat option" where
  "startsWithSpace s =
     map_option length (find (\<lambda>p. p \<noteq> [] \<and> take (length p) s = p) whiteSpace)"

function trimStart :: "string \<Rightarrow> string" where
  "trimStart s = (case startsWithSpace s of
                    None \<Rightarrow> s
                  | Some n \<Rightarrow> trimStart (drop n s))"
  by pat_completeness auto
termination
proof (relation "measure length")
  show "wf (measure length)" by simp
next
  fix s :: string and n
  assume "startsWithSpace s = Some n"
  then obtain p where p: "find (\<lambda>p. p \<noteq> [] \<and> take (length p) s = p) whiteSpace = Some p"
    and n: "n = length p"
    by (auto simp: startsWithSpace_def)
  from p have "p \<noteq> []" and "take (length p) s = p"
    by (auto simp: find_Some_iff)
  then have "s \<noteq> []" and "0 < n" using n by auto
  then show "(drop n s, s) \<in> measure length" by simp
qed

declare trimStart.simps [simp del]

definition isBlank :: "string \<Rightarrow> bool" where
  "isBlank s = (trimStart s = [])"

definition setProgress :: "progress \<Rightarrow> 'w component \<Rightarrow> 'w component" where
  "setProgress p st = st\<lparr>progress := p, snapshots := snapshots st @ [p]\<rparr>"

text \<open>The four awaited calls of the run, each made in the current world and recorded
  with its result.\<close>

definition callAnalysis :: "'w services \<Rightarrow> string \<Rightarrow> inputs \<Rightarrow> 'w component
    \<Rightarrow> string list \<times> 'w component" where
  "callAnalysis svc key inp st =
     (case analyzeBaseImages svc key (baseImages inp) (textModel inp) (world st) of
        (ds, w) \<Rightarrow> (ds, st\<lparr>world := w, calls := calls st @ [AnalysisCall (baseImages inp) ds]\<rparr>))"

definition callStoryText :: "'w services \<Rightarrow> string \<Rightarrow> inputs \<Rightarrow> nat \<Rightarrow> string list
    \<Rightarrow> 'w component \<Rightarrow> (thrown + string) \<times> 'w component" where
  "callStoryText svc key inp i storyTexts st =
     (case generateStoryText svc key (theme inp) i (pageCount inp) storyTexts (textModel inp)
             (world st) of
        (r, w) \<Rightarrow>
          (r, st\<lparr>world := w,
                 calls := calls st @ [StoryTextCall i (pageCount inp) storyTexts r]\<rparr>))"

definition callImagePrompt :: "'w services \<Rightarrow> string \<Rightarrow> inputs \<Rightarrow> target \<Rightarrow> string
    \<Rightarrow> string list \<Rightarrow> 'w component \<Rightarrow> (thrown + string) \<times> 'w component" where
  "callImagePrompt svc key inp t storyText ds st =
     (case generateImagePrompt svc key (theme inp) storyText ds (textModel inp) (world st) of
        (r, w) \<Rightarrow>
          (r, st\<lparr>world := w, calls := calls st @ [ImagePromptCall t storyText ds r]\<rparr>))"

definition callImage :: "'w services \<Rightarrow> string \<Rightarrow> inputs \<Rightarrow> target \<Rightarrow> string
    \<Rightarrow> 'w component \<Rightarrow> (thrown + string) \<times> 'w component" where
  "callImage svc key inp t p st =
     (case generateImage svc key p (imageModel inp) (world st) of
        (r, w) \<Rightarrow> (r, st\<lparr>world := w, calls := calls st @ [ImageCall t p r]\<rparr>))"

definition readClock :: "'w services \<Rightarrow> 'w component \<Rightarrow> int \<times> 'w component" where
  "readClock svc st = (case dateNow svc (world st) of (now, w) \<Rightarrow> (now, st\<lparr>world := w\<rparr>))"

text \<open>
  The body of the \<^verbatim>\<open>for\<close> loop for page \<open>i\<close>, from the arrays \<^verbatim>\<open>pages\<close> and
  \<^verbatim>\<open>storyTexts\<close> as they stand: the arrays with the new page and text pushed, or the
  error that leaves the loop. Only the image request stands in a \<^verbatim>\<open>try\<close>.
\<close>

definition pageBody :: "'w services \<Rightarrow> string \<Rightarrow> inputs \<Rightarrow> string list \<Rightarrow> nat
    \<Rightarrow> storyPage list \<Rightarrow> string list \<Rightarrow> 'w component
    \<Rightarrow> (thrown + storyPage list \<times> string list) \<times> 'w component" where
  "pageBody svc key inp baseImageDescriptions i ps storyTexts st =
     (case callStoryText svc key inp i storyTexts
             (setProgress \<lparr>current = i, progress_total = pageCount inp + 2,
                           progress_message = WritingStory i (pageCount inp)\<rparr> st) of
        (Inl e, st2) \<Rightarrow> (Inl e, st2)
      | (Inr storyText, st2) \<Rightarrow>
         (case callImagePrompt svc key inp (PageImage i) storyText baseImageDescriptions
                 (setProgress \<lparr>current = i, progress_total = pageCount inp + 2,
                               progress_message = DrawingIllustration i (pageCount inp)\<rparr> st2) of
            (Inl e, st4) \<Rightarrow> (Inl e, st4)
          | (Inr imagePrompt, st4) \<Rightarrow>
             (case callImage svc key inp (PageImage i) imagePrompt st4 of
                (r, st5) \<Rightarrow>
                 (case readClock svc st5 of
                    (now, st6) \<Rightarrow>
                      (Inr (ps @ [\<lparr>page_id = toString now @ digits i,
                                    page_image = (case r of Inl imgError \<Rightarrow> None
                                                  | Inr imageData \<Rightarrow> Some imageData),
                                    page_imageScale = 1,
                                    page_text = storyText\<rparr>],
                            storyTexts @ [storyText]), st6)))))"

function pagesLoop :: "'w services \<Rightarrow> string \<Rightarrow> inputs \<Rightarrow> string list \<Rightarrow> nat
    \<Rightarrow> storyPage list \<Rightarrow> string list \<Rightarrow> 'w component
    \<Rightarrow> (thrown + storyPage list) \<times> 'w component" where
  "pagesLoop svc key inp baseImageDescriptions i ps storyTexts st =
     (if i \<le> pageCount inp
      then (case pageBody svc key inp baseImageDescriptions i ps storyTexts st of
              (Inl e, st') \<Rightarrow> (Inl e, st')
            | (Inr (ps', storyTexts'), st') \<Rightarrow>
                pagesLoop svc key inp baseImageDescriptions (Suc i) ps' storyTexts' st')
      else (Inr ps, st))"
  by pat_completeness auto
termination
  by (relation "measure (\<lambda>(svc, key, inp, ds, i, ps, ts, st). Suc (pageCount inp) - i)") auto

declare pagesLoop.simps [simp del]

text \<open>The story text handed to the prompt for the cover: the theme between two fixed
  Japanese pieces ("cover: " and "'s story"), as UTF-8.\<close>

definition coverStoryText :: "string \<Rightarrow> string" where
  "coverStoryText thm =
     [CHR 0xE8, CHR 0xA1, CHR 0xA8, CHR 0xE7, CHR 0xB4, CHR 0x99, CHR 0x3A, CHR 0x20] @ thm @
     [CHR 0xE3, CHR 0x81, CHR 0xAE, CHR 0xE7, CHR 0x89, CHR 0xA9, CHR 0xE8, CHR 0xAA, CHR 0x9E]"

text \<open>The \<^verbatim>\<open>try\<close> around the cover: any failure leaves \<^verbatim>\<open>coverImage\<close> null.\<close>

definition generateCover :: "'w services \<Rightarrow> string \<Rightarrow> inputs \<Rightarrow> string list \<Rightarrow> 'w component
    \<Rightarrow> string option \<times> 'w component" where
  "generateCover svc key inp baseImageDescriptions st =
     (case callImagePrompt svc key inp CoverImage (coverStoryText (theme inp))
             baseImageDescriptions st of
        (Inl e, st1) \<Rightarrow> (None, st1)
      | (Inr coverPrompt, st1) \<Rightarrow>
         (case callImage svc key inp CoverImage coverPrompt st1 of
            (Inl e, st2) \<Rightarrow> (None, st2)
          | (Inr coverImage, st2) \<Rightarrow> (Some coverImage, st2)))"

text \<open>The analysis of the reference images, made only when there are any: the
  descriptions, or none.\<close>

definition analyzeReferences :: "'w services \<Rightarrow> string \<Rightarrow> inputs \<Rightarrow> 'w component
    \<Rightarrow> string list \<times> 'w component" where
  "analyzeReferences svc key inp st =
     (if baseImages inp \<noteq> []
      then callAnalysis svc key inp
             (setProgress \<lparr>current = 0, progress_total = pageCount inp + 2,
                           progress_message = AnalyzingReferences\<rparr> st)
      else ([], st))"

text \<open>The \<^verbatim>\<open>try\<close> block of \<^verbatim>\<open>handleGenerate\<close>: it ends by calling
  \<^verbatim>\<open>onGenerate\<close>, or with the value thrown inside it. What can throw are the text
  requests of the pages; the analysis of the reference images catches its own errors,
  and the callback is the handler of the application, which does not throw.\<close>

definition tryGenerate :: "'w services \<Rightarrow> string \<Rightarrow> inputs \<Rightarrow> 'w component
    \<Rightarrow> (thrown + unit) \<times> 'w component" where
  "tryGenerate svc key inp st =
     (case analyzeReferences svc key inp st of
        (baseImageDescriptions, st1) \<Rightarrow>
         (case pagesLoop svc key inp baseImageDescriptions 1 [] [] st1 of
            (Inl e, st2) \<Rightarrow> (Inl e, st2)
          | (Inr ps, st2) \<Rightarrow>
             (case generateCover svc key inp baseImageDescriptions
                     (setProgress \<lparr>current = pageCount inp + 1,
                                   progress_total = pageCount inp + 2,
                                   progress_message = MakingCover\<rparr> st2) of
                (coverImage, st3) \<Rightarrow>
                  let st4 = setProgress \<lparr>current = pageCount inp + 2,
                                         progress_total = pageCount inp + 2,
                                         progress_message = Complete\<rparr> st3
                  in (Inr (),
                      st4\<lparr>onGenerate := onGenerate st4 @
                             [(theme inp,
                               \<lparr>cover_image = coverImage, cover_imageScale = 1\<rparr>,
                               ps)]\<rparr>))))"

text \<open>\<^verbatim>\<open>err instanceof Error ? err.message : ...\<close>, the message shown for a caught value.\<close>

definition errorText :: "thrown \<Rightarrow> errorMessage" where
  "errorText err = (case err of ErrorObject m \<Rightarrow> Message m | NonError \<Rightarrow> GenerationError)"

definition handleGenerate :: "'w services \<Rightarrow> inputs \<Rightarrow> 'w component \<Rightarrow> 'w component" where
  "handleGenerate svc inp st =
     (case apiKey inp of
        None \<Rightarrow> st\<lparr>error := Some ApiKeyMissing\<rparr>
      | Some key \<Rightarrow>
         if key = [] then st\<lparr>error := Some ApiKeyMissing\<rparr>
         else if isBlank (theme inp) then st\<lparr>error := Some ThemeMissing\<rparr>
         else
           (case tryGenerate svc key inp
                   (setProgress \<lparr>current = 0, progress_total = pageCount inp + 2,
                                 progress_message = Preparing\<rparr>
                      (st\<lparr>isGenerating := True, error := None\<rparr>)) of
              (Inl err, st') \<Rightarrow>
                st'\<lparr>error := Some (errorText err), isGenerating := False\<rparr>
            | (Inr u, st') \<Rightarrow> st'\<lparr>isGenerating := False\<rparr>))"

subsection \<open>What is observed of one run\<close>

text \<open>The requests and the progress snapshots of the run started in state \<open>st\<close>:
  what the run adds to the two records of the component.\<close>

definition runCalls :: "'w services \<Rightarrow> inputs \<Rightarrow> 'w component \<Rightarrow> call list" where
  "runCalls svc inp st = drop (length (calls st)) (calls (handleGenerate svc inp st))"

definition runSnapshots :: "'w services \<Rightarrow> inputs \<Rightarrow> 'w component \<Rightarrow> progress list" where
  "runSnapshots svc inp st =
     drop (length (snapshots st)) (snapshots (handleGenerate svc inp st))"

text \<open>The error of a failed text generation for a page: the story text of the page, or
  the prompt for its illustration. Both are requests to the text model outside any
  \<^verbatim>\<open>try\<close> of the loop.\<close>

fun pageTextFailure :: "call \<Rightarrow> thrown option" where
  "pageTextFailure (StoryTextCall i n previous (Inl e)) = Some e"
| "pageTextFailure (ImagePromptCall (PageImage i) storyText ds (Inl e)) = Some e"
| "pageTextFailure c = None"

fun imageSuccess :: "call \<Rightarrow> bool" where
  "imageSuccess (ImageCall t p (Inr d)) = True"
| "imageSuccess c = False"

fun isStoryTextCall :: "call \<Rightarrow> bool" where
  "isStoryTextCall (StoryTextCall i n previous r) = True"
| "isStoryTextCall c = False"

section \<open>The book collection (App)\<close>

text \<open>
  The collection is a list of book objects. It is written to local storage as JSON text
  and read from there. The pages and the cover the generator hands over are the objects of its
  object literals, with the properties in the order they are written there.
\<close>

definition pageJson :: "storyPage \<Rightarrow> json" where
  "pageJson p =
     JObj [(''id'', JStr (page_id p)),
           (''image'', (case page_image p of None \<Rightarrow> JNull | Some d \<Rightarrow> JStr d)),
           (''imageScale'', JNum (page_imageScale p)),
           (''text'', JStr (page_text p))]"

definition coverJson :: "coverData \<Rightarrow> json" where
  "coverJson c =
     JObj [(''image'', (case cover_image c of None \<Rightarrow> JNull | Some d \<Rightarrow> JStr d)),
           (''imageScale'', JNum (cover_imageScale c))]"

datatype appMode = Home | Edit | Preview | View | AiGenerate

text \<open>The state of \<^verbatim>\<open>App\<close>, and the text local storage holds under the key of the
  collection (nothing before the first write; only \<^verbatim>\<open>saveBooks\<close> writes there).\<close>

record app =
  mode :: appMode
  books :: "json list"
  currentBookId :: "string option"
  pages :: "json list"
  title :: string
  coverData :: json
  storage :: "jsonText option"

text \<open>The title given to a book saved without one ("untitled book"), as UTF-8.\<close>

definition untitled :: string where
  "untitled =
     [CHR 0xE7, CHR 0x84, CHR 0xA1, CHR 0xE9, CHR 0xA1, CHR 0x8C, CHR 0xE3, CHR 0x81, CHR 0xAE,
      CHR 0xE6, CHR 0x9C, CHR 0xAC]"

text \<open>\<^verbatim>\<open>saveBooks\<close>: the write to local storage may throw (the quota); the error is
  logged and the stored value stays. \<open>writable\<close> tells whether the write goes through.\<close>

definition saveBooks :: "bool \<Rightarrow> json list \<Rightarrow> app \<Rightarrow> app" where
  "saveBooks writable bs st =
     (if writable then st\<lparr>storage := Some (stringify (JArr bs))\<rparr> else st)"

definition newBook :: "int \<Rightarrow> string \<Rightarrow> json \<Rightarrow> json list \<Rightarrow> json" where
  "newBook now t cover ps =
     JObj [(''id'', JStr (toString now)),
           (''title'', JStr (if t = [] then untitled else t)),
           (''coverData'', cover),
           (''pages'', JArr ps),
           (''createdAt'', JNum (of_int now)),
           (''updatedAt'', JNum (of_int now))]"

text \<open>\<^verbatim>\<open>{ ...book, title, coverData, pages, updatedAt: now }\<close>\<close>

definition updatedBook :: "int \<Rightarrow> string \<Rightarrow> json \<Rightarrow> json list \<Rightarrow> json \<Rightarrow> json" where
  "updatedBook now t cover ps book =
     JObj (AList.update ''updatedAt'' (JNum (of_int now))
            (AList.update ''pages'' (JArr ps)
              (AList.update ''coverData'' cover
                (AList.update ''title'' (JStr t)
                  (case book of JObj kvs \<Rightarrow> kvs | _ \<Rightarrow> [])))))"

definition handleSaveBook :: "int \<Rightarrow> bool \<Rightarrow> app \<Rightarrow> app" where
  "handleSaveBook now writable st =
     (case (case currentBookId st of None \<Rightarrow> None
            | Some c \<Rightarrow> if c = [] then None else Some c) of
        Some c \<Rightarrow>
          let updatedBooks =
                map (\<lambda>book. if bookId book = Some (JStr c)
                             then updatedBook now (title st) (coverData st) (pages st) book
                             else book) (books st)
          in saveBooks writable updatedBooks (st\<lparr>books := updatedBooks\<rparr>)
      | None \<Rightarrow>
          let updatedBooks = newBook now (title st) (coverData st) (pages st) # books st
          in (saveBooks writable updatedBooks (st\<lparr>books := updatedBooks\<rparr>))
               \<lparr>currentBookId := Some (toString now)\<rparr>)"

definition handleAIGenerateComplete ::
  "int \<Rightarrow> bool \<Rightarrow> string \<Rightarrow> coverData \<Rightarrow> storyPage list \<Rightarrow> app \<Rightarrow> app" where
  "handleAIGenerateComplete now writable generatedTitle generatedCover generatedPages st =
     (let st1 = st\<lparr>title := generatedTitle, coverData := coverJson generatedCover,
                    pages := map pageJson generatedPages\<rparr>;
          updatedBooks =
            newBook now generatedTitle (coverJson generatedCover) (map pageJson generatedPages)
              # books st
      in (saveBooks writable updatedBooks (st1\<lparr>books := updatedBooks\<rparr>))
           \<lparr>currentBookId := Some (toString now), mode := Edit\<rparr>)"

definition handleUpdateBooks :: "bool \<Rightarrow> json list \<Rightarrow> app \<Rightarrow> app" where
  "handleUpdateBooks writable newBooks st =
     saveBooks writable newBooks (st\<lparr>books := newBooks\<rparr>)"

text \<open>The two import handlers of the home screen: on success the new collection goes to
  \<^verbatim>\<open>onUpdateBooks\<close>, which is \<^verbatim>\<open>handleUpdateBooks\<close>; on an error the user is told and
  nothing changes.\<close>

definition handleUploadBookshelf ::
  "upload \<Rightarrow> importMode \<Rightarrow> idSource \<Rightarrow> bool \<Rightarrow> app \<Rightarrow> app" where
  "handleUploadBookshelf f m env writable st =
     (case uploadBookshelf f (books st) m env of
        Inl e \<Rightarrow> st
      | Inr (newBooks, importedCount) \<Rightarrow> handleUpdateBooks writable newBooks st)"

definition handleUploadSingleBook :: "upload \<Rightarrow> idSource \<Rightarrow> bool \<Rightarrow> app \<Rightarrow> app" where
  "handleUploadSingleBook f env writable st =
     (case uploadSingleBook f (books st) env of
        Inl e \<Rightarrow> st
      | Inr (newBooks, importedBook) \<Rightarrow> handleUpdateBooks writable newBooks st)"

text \<open>\<^verbatim>\<open>handleFinish\<close> saves like \<^verbatim>\<open>handleSaveBook\<close>, except that a new book is
  only created when there is a page, and shows the book.\<close>

definition handleFinish :: "int \<Rightarrow> bool \<Rightarrow> app \<Rightarrow> app" where
  "handleFinish now writable st =
     (case (case currentBookId st of None \<Rightarrow> None
            | Some c \<Rightarrow> if c = [] then None else Some c) of
        Some c \<Rightarrow>
          let updatedBooks =
                map (\<lambda>book. if bookId book = Some (JStr c)
                             then updatedBook now (title st) (coverData st) (pages st) book
                             else book) (books st)
          in (saveBooks writable updatedBooks (st\<lparr>books := updatedBooks\<rparr>))\<lparr>mode := View\<rparr>
      | None \<Rightarrow>
          if length (pages st) > 0
          then
            let updatedBooks = newBook now (title st) (coverData st) (pages st) # books st
            in (saveBooks writable updatedBooks (st\<lparr>books := updatedBooks\<rparr>))
                 \<lparr>currentBookId := Some (toString now), mode := View\<rparr>
          else st\<lparr>mode := View\<rparr>)"

text \<open>\<^verbatim>\<open>handleDeleteBook\<close>: the books whose id is not the string \<open>i\<close>.\<close>

definition handleDeleteBook :: "string \<Rightarrow> bool \<Rightarrow> app \<Rightarrow> app" where
  "handleDeleteBook i writable st =
     (let updatedBooks = filter (\<lambda>b. bookId b \<noteq> Some (JStr i)) (books st)
      in saveBooks writable updatedBooks (st\<lparr>books := updatedBooks\<rparr>))"

text \<open>\<^verbatim>\<open>loadBooks\<close>: the collection read from the stored text, or the empty one when
  nothing is stored. The value read is used as an array of books without a check; the
  stored text is that of an array, since \<^verbatim>\<open>saveBooks\<close> wrote it.\<close>

definition loadBooks :: "app \<Rightarrow> json list" where
  "loadBooks st =
     (case storage st of
        None \<Rightarrow> []
      | Some t \<Rightarrow> (case jsonParse t of JArr bs \<Rightarrow> bs | _ \<Rightarrow> []))"

text \<open>The ids of a collection are unique when no two of its books have the same one; the
  application keeps them unique when both the collection it shows and the collection it
  has stored have unique ids.\<close>

definition uniqueIds :: "json list \<Rightarrow> bool" where
  "uniqueIds bs = distinct (map bookId bs)"

definition uniqueShelf :: "app \<Rightarrow> bool" where
  "uniqueShelf st = (uniqueIds (books st) \<and> uniqueIds (loadBooks st))"

text \<open>The type \<^verbatim>\<open>Book\<close> gives every book a string as id.\<close>

definition stringIds :: "json list \<Rightarrow> bool" where
  "stringIds bs = list_all (\<lambda>b. typeof (bookId b) = ''string'') bs"

subsection \<open>Values that JSON text can hold\<close>

text \<open>
  \<open>finiteNumbers v\<close>: no number inside \<open>v\<close> is an infinity or NaN.
  \<open>properObjects v\<close>: every object inside \<open>v\<close> is given with each of its keys once, as
  the properties of a JavaScript object are.
\<close>

fun finiteNumbers :: "json \<Rightarrow> bool" where
  "finiteNumbers (JNonFinite n) = False"
| "finiteNumbers (JArr vs) = list_all finiteNumbers vs"
| "finiteNumbers (JObj kvs) = list_all (\<lambda>(k, v). finiteNumbers v) kvs"
| "finiteNumbers v = True"

fun properObjects :: "json \<Rightarrow> bool" where
  "properObjects (JArr vs) = list_all properObjects vs"
| "properObjects (JObj kvs) =
     (distinct (map fst kvs) \<and> list_all (\<lambda>(k, v). properObjects v) kvs)"
| "properObjects v = True"

section \<open>Example data\<close>

text \<open>Values used where a statement is checked on a concrete input.\<close>

definition moonBook :: json where
  "moonBook =
     JObj [(''id'', JStr ''x''), (''title'', JStr ''Moon''),
           (''coverData'', JObj [(''image'', JNull), (''imageScale'', JNum 1)]),
           (''pages'', JArr []), (''createdAt'', JNum 5), (''updatedAt'', JNum 5)]"

definition starBook :: json where
  "starBook =
     JObj [(''id'', JStr ''y''), (''title'', JStr ''Star''),
           (''coverData'', JNull),
           (''pages'', JArr []), (''createdAt'', JNum 7), (''updatedAt'', JNum 8)]"

text \<open>A book with an id as the import generates them.\<close>

definition tickBook :: json where
  "tickBook =
     JObj [(''id'', JStr ''42k3''), (''title'', JStr ''Tick''),
           (''coverData'', JObj [(''image'', JNull), (''imageScale'', JNum 1)]),
           (''pages'', JArr []), (''createdAt'', JNum 3), (''updatedAt'', JNum 4)]"

text \<open>A book whose time stamps are infinite, and a single-book document that is read as
  this book: \<^verbatim>\<open>{"book": {"id": "z", ..., "createdAt": 1e999, "updatedAt": 1e999}}\<close>.\<close>

definition lateBook :: json where
  "lateBook =
     JObj [(''id'', JStr ''z''), (''title'', JStr ''Late''), (''coverData'', JNull),
           (''pages'', JArr []), (''createdAt'', JNonFinite Infinity),
           (''updatedAt'', JNonFinite Infinity)]"

definition lateDocument :: jsonText where
  "lateDocument =
     TObj [(''book'',
            TObj [(''id'', TStr ''z''), (''title'', TStr ''Late''), (''coverData'', TNull),
                  (''pages'', TArr []), (''createdAt'', TOutOfRange False),
                  (''updatedAt'', TOutOfRange False)])]"

definition noIdBook :: json where
  "noIdBook = JObj [(''title'', JStr ''Lost'')]"

definition sampleIds :: idSource where
  "sampleIds k = (42 + int k, ''k3'')"

text \<open>
  A world that counts the requests made. The text model answers request number \<open>w\<close>
  with the text \<open>reply w\<close>, except that request number \<open>failAt\<close> is rejected; the image
  model rejects every request; the clock shows the count.
\<close>

definition countingServices :: "nat \<Rightarrow> (nat \<Rightarrow> string) \<Rightarrow> nat services" where
  "countingServices failAt reply =
     \<lparr>textService = (\<lambda>key modelName p w.
        (if w = failAt then Inl (ErrorObject ''quota exceeded'') else Inr (reply w), Suc w)),
      imageService = (\<lambda>key req w. (Inl (ErrorObject ''no image today''), Suc w)),
      dateNow = (\<lambda>w. (int w, w))\<rparr>"

definition numbered :: "nat \<Rightarrow> string" where
  "numbered w = ''text '' @ digits w"

definition silent :: "nat \<Rightarrow> string" where
  "silent w = []"

definition catInputs :: "nat \<Rightarrow> inputs" where
  "catInputs n =
     \<lparr>apiKey = Some ''key'', theme = ''cat'', pageCount = n, baseImages = [],
      textModel = ''gemini-2.0-flash'', imageModel = ''gemini-2.5-flash-image''\<rparr>"

definition idle :: "nat component" where
  "idle =
     \<lparr>world = 0, isGenerating = False, error = None,
      progress = \<lparr>current = 0, progress_total = 0, progress_message = Preparing\<rparr>,
      snapshots = [], calls = [], onGenerate = []\<rparr>"

text \<open>Services whose image model answers every request with the response \<open>r\<close>.\<close>

definition paintingServices :: "response \<Rightarrow> nat services" where
  "paintingServices r =
     \<lparr>textService = (\<lambda>key modelName p w. (Inr ''a cat on the moon'', Suc w)),
      imageService = (\<lambda>key req w. (Inr r, Suc w)),
      dateNow = (\<lambda>w. (int w, w))\<rparr>"

definition noCandidates :: response where
  "noCandidates = \<lparr>candidates = None\<rparr>"

definition pngPart :: part where
  "pngPart = \<lparr>part_inlineData = Some \<lparr>inline_data = Some ''iVBOR'', inline_mimeType = None\<rparr>\<rparr>"

definition onePicture :: response where
  "onePicture =
     \<lparr>candidates = Some [\<lparr>candidate_content =
        Some \<lparr>parts = Some [\<lparr>part_inlineData = None\<rparr>, pngPart]\<rparr>\<rparr>]\<rparr>"

text \<open>The application on the home screen with the collection \<open>bs\<close>, nothing stored yet.\<close>

definition shelf :: "json list \<Rightarrow> app" where
  "shelf bs =
     \<lparr>mode = Home, books = bs, currentBookId = None, pages = [], title = [],
      coverData = JObj [(''image'', JNull), (''imageScale'', JNum 1)], storage = None\<rparr>"


text \<open>A book saved when the clock read 9, and the application in the editor with one
  page, on the book with the id \<open>c\<close> if there is one.\<close>

definition clockBook :: json where
  "clockBook =
     JObj [(''id'', JStr ''9''), (''title'', JStr ''Clock''),
           (''coverData'', JObj [(''image'', JNull), (''imageScale'', JNum 1)]),
           (''pages'', JArr []), (''createdAt'', JNum 9), (''updatedAt'', JNum 9)]"

definition drafting :: "json list \<Rightarrow> string option \<Rightarrow> app" where
  "drafting bs c =
     (shelf bs)\<lparr>mode := Edit, currentBookId := c, title := ''Draft'',
                pages := [pageJson \<lparr>page_id = ''11'', page_image = None, page_imageScale = 1,
                                     page_text = ''Once''\<rparr>]\<rparr>"
section \<open>Properties\<close>

subsection \<open>Writing and reading JSON text\<close>

lemma update_fresh: "k \<notin> fst ` set al \<Longrightarrow> AList.update k v al = al @ [(k, v)]"
  by (induction al) auto

lemma foldl_update_distinct:
  "distinct (map fst (acc @ kvs)) \<Longrightarrow>
     foldl (\<lambda>obj (k, v). AList.update k v obj) acc kvs = acc @ kvs"
proof (induction kvs arbitrary: acc)
  case Nil
  then show ?case by simp
next
  case (Cons kv kvs)
  obtain k v where kv: "kv = (k, v)" by (cases kv)
  from Cons.prems kv have fresh: "k \<notin> fst ` set acc" by auto
  from Cons.prems kv have "distinct (map fst ((acc @ [(k, v)]) @ kvs))" by simp
  from Cons.IH [OF this] fresh kv show ?case
    by (simp add: update_fresh)
qed

lemma defineProperties_distinct:
  "distinct (map fst kvs) \<Longrightarrow> defineProperties kvs = kvs"
  using foldl_update_distinct [of "[]" kvs] by (simp add: defineProperties_def)

lemma fst_map_values: "map fst (map (\<lambda>(k, v). (k, f v)) kvs) = map fst kvs"
  by (induction kvs) auto

lemma map_of_map_values:
  "map_of (map (\<lambda>(k, v). (k, f v)) kvs) k = map_option f (map_of kvs k)"
  by (induction kvs) auto

text \<open>A value without infinities and NaN, its objects given with each key once, is read
  back from its text as it was.\<close>

lemma jsonParse_stringify:
  "finiteNumbers v \<Longrightarrow> properObjects v \<Longrightarrow> jsonParse (stringify v) = v"
proof (induction v)
  case (JArr vs)
  then have "map (\<lambda>v. jsonParse (stringify v)) vs = vs"
    by (intro map_idI) (auto simp: list_all_iff)
  then show ?case by (simp add: comp_def)
next
  case (JObj kvs)
  from JObj.prems have d: "distinct (map fst kvs)" by simp
  have "map ((\<lambda>(k, t). (k, jsonParse t)) \<circ> (\<lambda>(k, v). (k, stringify v))) kvs = kvs"
  proof (intro map_idI)
    fix kv assume kv: "kv \<in> set kvs"
    obtain k v where e: "kv = (k, v)" by (cases kv)
    from kv e JObj.prems have "finiteNumbers v" "properObjects v"
      by (auto simp: list_all_iff)
    then have "jsonParse (stringify v) = v"
      using JObj.IH kv e by (auto simp: snds.simps)
    with e show "((\<lambda>(k, t). (k, jsonParse t)) \<circ> (\<lambda>(k, v). (k, stringify v))) kv = kv"
      by simp
  qed
  then have vals:
    "map (\<lambda>(k, t). (k, jsonParse t)) (map (\<lambda>(k, v). (k, stringify v)) kvs) = kvs"
    by (simp only: map_map)
  have "AList.clearjunk (map (\<lambda>(k, v). (k, stringify v)) kvs)
      = map (\<lambda>(k, v). (k, stringify v)) kvs"
    using d by (intro distinct_clearjunk_id) (simp only: fst_map_values)
  with vals d show ?case
    by (simp add: defineProperties_distinct)
qed simp_all

text \<open>A property read from a value that went through JSON text is the property of the
  value, itself gone through JSON text; a string comes back as it was.\<close>

lemma property_jsonParse_stringify:
  "property (jsonParse (stringify b)) key
     = map_option (\<lambda>v. jsonParse (stringify v)) (property b key)"
proof (cases b)
  case (JObj kvs)
  let ?w = "map (\<lambda>(k, v). (k, stringify v)) kvs"
  let ?r = "map (\<lambda>(k, t). (k, jsonParse t)) (AList.clearjunk ?w)"
  have "distinct (map fst ?r)"
    by (simp only: fst_map_values) (rule distinct_clearjunk)
  then have "defineProperties ?r = ?r" by (rule defineProperties_distinct)
  then have "property (jsonParse (stringify b)) key = map_of ?r key"
    using JObj by simp
  also have "\<dots> = map_option jsonParse (map_of (AList.clearjunk ?w) key)"
    by (rule map_of_map_values)
  also have "\<dots> = map_option jsonParse (map_of ?w key)"
    by (simp add: map_of_clearjunk)
  also have "\<dots> = map_option jsonParse (map_option stringify (map_of kvs key))"
    by (simp only: map_of_map_values)
  finally show ?thesis using JObj
    by (simp add: option.map_comp comp_def)
qed simp_all

lemma bookId_jsonParse_stringify:
  "bookId (jsonParse (stringify b)) = map_option (\<lambda>v. jsonParse (stringify v)) (bookId b)"
  by (simp add: bookId_def property_jsonParse_stringify)

lemma jsonParse_stringify_obj: "\<exists>kvs. jsonParse (stringify (JObj kvs0)) = JObj kvs"
  by simp

lemma stringId_jsonParse_stringify:
  "typeof (bookId b) = ''string'' \<Longrightarrow> bookId (jsonParse (stringify b)) = bookId b"
proof -
  assume "typeof (bookId b) = ''string''"
  then obtain s where "bookId b = Some (JStr s)"
    by (cases "bookId b" rule: typeof.cases) simp_all
  then show ?thesis by (simp add: bookId_jsonParse_stringify)
qed

lemma stringIds_jsonParse_stringify:
  "stringIds bs \<Longrightarrow> map bookId (map (\<lambda>b. jsonParse (stringify b)) bs) = map bookId bs"
  by (induction bs) (simp_all add: stringIds_def stringId_jsonParse_stringify)

subsection \<open>Validated books\<close>

lemma validateBook_obj: "validateBook b \<Longrightarrow> \<exists>kvs. b = JObj kvs"
  by (cases b) (simp_all add: validateBook_def)

lemma validateBook_truthy: "validateBook b \<Longrightarrow> truthy b"
  by (cases b) (simp_all add: validateBook_def)

lemma validateBook_id: "validateBook b \<Longrightarrow> \<exists>s. bookId b = Some (JStr s)"
proof -
  assume "validateBook b"
  then have t: "typeof (property b ''id'') = ''string''"
    by (simp add: validateBook_def split: if_splits)
  show ?thesis
  proof (cases "property b ''id''")
    case None
    with t show ?thesis by simp
  next
    case (Some v)
    with t show ?thesis by (cases v) (simp_all add: bookId_def)
  qed
qed

lemma bookId_withId: "bookId (withId b s) = Some (JStr s)"
  by (cases b) (simp_all add: bookId_def update_conv')

lemma property_withId:
  "k \<noteq> ''id'' \<Longrightarrow> property (withId (JObj kvs) s) k = property (JObj kvs) k"
  by (simp add: update_conv')

lemma getProp_obj: "getProp (JObj kvs) k = Inr (map_of kvs k)"
  by simp

lemma getProp_property: "property v k = Some x \<Longrightarrow> getProp v k = Inr (Some x)"
  by (cases v) simp_all

lemma getProp_not_null: "v \<noteq> JNull \<Longrightarrow> getProp v k = Inr (property v k)"
  by (cases v) simp_all

subsection \<open>Generated ids\<close>

lemma digits_hd: "digits n \<noteq> [] \<and> hd (digits n) \<in> set ''0123456789''"
proof (induction n rule: digits.induct)
  case (1 n)
  show ?case
  proof (cases "n < 10")
    case True
    then have "''0123456789'' ! n \<in> set ''0123456789''"
      by (intro nth_mem) simp
    with True show ?thesis by (simp add: digits.simps [of n])
  next
    case False
    with "1.IH" show ?thesis by (simp add: digits.simps [of n])
  qed
qed

lemma newId_begins: "beginsLikeNewId (newId e)"
proof -
  have "toString (fst e) \<noteq> [] \<and> hd (toString (fst e)) \<in> set ''-0123456789''"
    using digits_hd [of "nat (fst e)"] by (auto simp: toString_def)
  then show ?thesis by (simp add: beginsLikeNewId_def newId_def)
qed

subsection \<open>The merge of a bookshelf import\<close>

lemma length_mergeBooks: "length (mergeBooks ids env k bs) = length bs"
  by (induction bs arbitrary: k) simp_all

lemma mergeBooks_keeps:
  "b \<in> set bs \<Longrightarrow> bookId b \<notin> set ids \<Longrightarrow> b \<in> set (mergeBooks ids env k bs)"
  by (induction bs arbitrary: k) auto

lemma mergeBooks_nth:
  "i < length bs \<Longrightarrow>
   (bookId (bs ! i) \<notin> set ids \<and> mergeBooks ids env k bs ! i = bs ! i) \<or>
   (bookId (bs ! i) \<in> set ids \<and>
    (\<exists>j. mergeBooks ids env k bs ! i = withId (bs ! i) (newId (env j))))"
proof (induction bs arbitrary: k i)
  case Nil
  then show ?case by simp
next
  case (Cons b bs)
  show ?case
  proof (cases i)
    case 0
    then show ?thesis by auto
  next
    case (Suc n)
    with Cons.prems have "n < length bs" by simp
    from Cons.IH [OF this] Suc show ?thesis by simp
  qed
qed

lemma uploadBookshelf_books:
  assumes "property data ''books'' = Some (JArr cands)"
  shows "uploadBookshelf (Json data) existing m env =
     (if filter validateBook cands = [] then Inl NoValidBooks
      else if m = Replace
      then Inr (filter validateBook cands, length (filter validateBook cands))
      else Inr (existing @ mergeBooks (existingIds existing) env 0 (filter validateBook cands),
                length (filter validateBook cands)))"
  using getProp_property [OF assms]
  by (simp add: uploadBookshelf_def parseFile_def truthyProp_def Let_def length_mergeBooks)

lemma property_bookshelfExport:
  "property (bookshelfExport now bs) ''books'' = Some (JArr bs)"
  by (simp add: bookshelfExport_def)

lemma uploadSingleBook_candidate:
  assumes "data \<noteq> JNull"
  shows "uploadSingleBook (Json data) existing env =
     (case candidateBook data (property data ''book'') of
        Inl e \<Rightarrow> Inl e
      | Inr book \<Rightarrow>
          if \<not> validateBook book then Inl InvalidBookFormat
          else if bookId book \<in> set (existingIds existing)
          then Inr (withId book (newId (env 0)) # existing, withId book (newId (env 0)))
          else Inr (book # existing, book))"
  using getProp_not_null [OF assms]
  by (simp add: uploadSingleBook_def parseFile_def Let_def split: sum.splits)

subsection \<open>Claims about import and export\<close>

lemma savedFile_downloadSingleBook:
  "savedFile (downloadSingleBook now b)
     = Json (JObj [(''version'', JStr EXPORT_VERSION), (''exportedAt'', JNum (of_int now)),
                   (''book'', jsonParse (stringify b))])"
  by (simp add: savedFile_def downloadSingleBook_def singleBookExport_def
      defineProperties_def)

lemma reimport_single_book:
  assumes "validateBook b"
  shows "uploadSingleBook (savedFile (downloadSingleBook now b)) [] env =
     (if validateBook (jsonParse (stringify b))
      then Inr ([jsonParse (stringify b)], jsonParse (stringify b))
      else Inl InvalidBookFormat)"
proof -
  obtain kvs0 where "b = JObj kvs0" using assms validateBook_obj by blast
  then obtain kvs where "jsonParse (stringify b) = JObj kvs"
    using jsonParse_stringify_obj by blast
  then show ?thesis
    by (simp add: savedFile_downloadSingleBook uploadSingleBook_def parseFile_def
        candidateBook_def existingIds_def Let_def)
qed

lemma moonBook_valid: "validateBook moonBook"
  by (simp add: moonBook_def validateBook_def)

lemma lateBook_valid: "validateBook lateBook"
  by (simp add: lateBook_def validateBook_def)

text \<open>
  Claim C6, as stated, fails. The book \<open>lateBook\<close> passes the validation; it enters the
  empty collection by the import of a document that gives its two time stamps as
  \<^verbatim>\<open>1e999\<close>, which is read as infinity. Its export writes the two time stamps as
  \<^verbatim>\<open>null\<close>, and importing that export into the empty collection fails with the
  error for a wrong book format.
\<close>

theorem C6_counterexample:
  "validateBook lateBook \<and>
   uploadSingleBook (savedFile lateDocument) [] sampleIds = Inr ([lateBook], lateBook) \<and>
   property (jsonParse (downloadSingleBook 9 lateBook)) ''book''
     = Some (JObj [(''id'', JStr ''z''), (''title'', JStr ''Late''), (''coverData'', JNull),
                   (''pages'', JArr []), (''createdAt'', JNull), (''updatedAt'', JNull)]) \<and>
   uploadSingleBook (savedFile (downloadSingleBook 9 lateBook)) [] sampleIds
     = Inl InvalidBookFormat"
proof -
  have r: "jsonParse (stringify lateBook)
      = JObj [(''id'', JStr ''z''), (''title'', JStr ''Late''), (''coverData'', JNull),
              (''pages'', JArr []), (''createdAt'', JNull), (''updatedAt'', JNull)]"
    by (simp add: lateBook_def defineProperties_def)
  have d: "jsonParse lateDocument = JObj [(''book'', lateBook)]"
    by (simp add: lateDocument_def lateBook_def defineProperties_def)
  have "uploadSingleBook (savedFile lateDocument) [] sampleIds = Inr ([lateBook], lateBook)"
    using lateBook_valid validateBook_truthy [OF lateBook_valid]
    by (simp add: savedFile_def d uploadSingleBook_def parseFile_def candidateBook_def
        existingIds_def)
  moreover have "property (jsonParse (downloadSingleBook 9 lateBook)) ''book''
      = Some (jsonParse (stringify lateBook))"
    by (simp add: downloadSingleBook_def singleBookExport_def defineProperties_def)
  moreover have "uploadSingleBook (savedFile (downloadSingleBook 9 lateBook)) [] sampleIds
      = Inl InvalidBookFormat"
    by (simp add: reimport_single_book [OF lateBook_valid] r validateBook_def)
  ultimately show ?thesis
    using lateBook_valid r by simp
qed

text \<open>
  Claim C6, amended. A book that passes the validation of the import is exported as a
  single-book document, and the downloaded file is imported into the empty collection.
  If no number inside the book is an infinity or NaN (and its objects are given with
  each key once, as JavaScript objects are), the result is the collection of exactly that
  book: the imported book is the exported one, property for property, its id included,
  whatever the clock and the random generator give. In general the book that comes back
  is the one read from the text written for it; it is imported if it passes the
  validation, and the import fails with the error for a wrong book format if it does
  not. This is the case when \<^verbatim>\<open>createdAt\<close> or \<^verbatim>\<open>updatedAt\<close> of the book is not
  finite, since such a number is written as \<^verbatim>\<open>null\<close>.
\<close>

theorem C6_roundtrip_single_book:
  "(validateBook b \<and> finiteNumbers b \<and> properObjects b \<longrightarrow>
      uploadSingleBook (savedFile (downloadSingleBook now b)) [] env = Inr ([b], b)) \<and>
   (validateBook b \<longrightarrow>
      uploadSingleBook (savedFile (downloadSingleBook now b)) [] env =
        (if validateBook (jsonParse (stringify b))
         then Inr ([jsonParse (stringify b)], jsonParse (stringify b))
         else Inl InvalidBookFormat)) \<and>
   (validateBook b \<and>
    (property b ''createdAt'' = Some (JNonFinite n) \<or>
     property b ''updatedAt'' = Some (JNonFinite n)) \<longrightarrow>
      uploadSingleBook (savedFile (downloadSingleBook now b)) [] env = Inl InvalidBookFormat)"
proof (intro conjI impI)
  assume h: "validateBook b \<and> finiteNumbers b \<and> properObjects b"
  then have "jsonParse (stringify b) = b"
    by (simp add: jsonParse_stringify)
  with h show "uploadSingleBook (savedFile (downloadSingleBook now b)) [] env = Inr ([b], b)"
    by (simp add: reimport_single_book)
next
  assume "validateBook b"
  then show "uploadSingleBook (savedFile (downloadSingleBook now b)) [] env =
        (if validateBook (jsonParse (stringify b))
         then Inr ([jsonParse (stringify b)], jsonParse (stringify b))
         else Inl InvalidBookFormat)"
    by (rule reimport_single_book)
next
  assume h: "validateBook b \<and>
    (property b ''createdAt'' = Some (JNonFinite n) \<or>
     property b ''updatedAt'' = Some (JNonFinite n))"
  then have "property (jsonParse (stringify b)) ''createdAt'' = Some JNull \<or>
      property (jsonParse (stringify b)) ''updatedAt'' = Some JNull"
    by (auto simp: property_jsonParse_stringify)
  then have "\<not> validateBook (jsonParse (stringify b))"
    by (auto simp: validateBook_def)
  with h show "uploadSingleBook (savedFile (downloadSingleBook now b)) [] env
      = Inl InvalidBookFormat"
    by (simp add: reimport_single_book)
qed

theorem C6_roundtrip_witness:
  "validateBook moonBook \<and> finiteNumbers moonBook \<and> properObjects moonBook \<and>
   uploadSingleBook (savedFile (downloadSingleBook 9 moonBook)) [] sampleIds
     = Inr ([moonBook], moonBook) \<and>
   validateBook lateBook \<and> property lateBook ''createdAt'' = Some (JNonFinite Infinity) \<and>
   \<not> validateBook (jsonParse (stringify lateBook)) \<and>
   uploadSingleBook (savedFile (downloadSingleBook 9 lateBook)) [] sampleIds
     = Inl InvalidBookFormat"
proof -
  have f: "finiteNumbers moonBook \<and> properObjects moonBook"
    by (simp add: moonBook_def)
  have c: "property lateBook ''createdAt'' = Some (JNonFinite Infinity)"
    by (simp add: lateBook_def)
  have n: "\<not> validateBook (jsonParse (stringify lateBook))"
    by (simp add: lateBook_def defineProperties_def validateBook_def)
  from C6_roundtrip_single_book [where b = moonBook and now = 9 and env = sampleIds]
       C6_roundtrip_single_book
         [where b = lateBook and now = 9 and env = sampleIds and n = Infinity]
       moonBook_valid lateBook_valid f c n
  show ?thesis by simp
qed

subsection \<open>The example books\<close>

lemma starBook_valid: "validateBook starBook"
  by (simp add: starBook_def validateBook_def)

lemma noIdBook_invalid: "\<not> validateBook noIdBook"
  by (simp add: noIdBook_def validateBook_def)

lemma moonBook_id: "bookId moonBook = Some (JStr ''x'')"
  by (simp add: moonBook_def bookId_def)

lemma starBook_id: "bookId starBook = Some (JStr ''y'')"
  by (simp add: starBook_def bookId_def)

lemma sampleIds_0: "newId (sampleIds 0) = ''42k3''"
  by (simp add: newId_def sampleIds_def toString_def digits.simps)

lemma tickBook_valid: "validateBook tickBook"
  by (simp add: tickBook_def validateBook_def)

lemma tickBook_id: "bookId tickBook = Some (JStr ''42k3'')"
  by (simp add: tickBook_def bookId_def)

lemma jsonParse_stringify_moonBook: "jsonParse (stringify moonBook) = moonBook"
  by (rule jsonParse_stringify) (simp_all add: moonBook_def)

lemma jsonParse_stringify_starBook: "jsonParse (stringify starBook) = starBook"
  by (rule jsonParse_stringify) (simp_all add: starBook_def)

lemma jsonParse_stringify_tickBook: "jsonParse (stringify tickBook) = tickBook"
  by (rule jsonParse_stringify) (simp_all add: tickBook_def)

lemma jsonParse_downloadBookshelf:
  "jsonParse (downloadBookshelf now bs)
     = bookshelfExport now (map (\<lambda>b. jsonParse (stringify b)) bs)"
  by (simp add: downloadBookshelf_def bookshelfExport_def defineProperties_def comp_def)

subsection \<open>Claim about the merge of a colliding book\<close>

text \<open>
  Claim C7, as stated, fails for ids that look like generated ones. The collection holds
  the book \<open>tickBook\<close> with the id \<^verbatim>\<open>"42k3"\<close>; its bookshelf export is merged into
  the collection while the clock reads 42 and the random suffix is \<^verbatim>\<open>k3\<close>. The id
  generated for the imported book is \<^verbatim>\<open>"42k3"\<close> again, and the code does not compare
  it with anything: the collection then holds two books with this id.
\<close>

theorem C7_counterexample:
  "validateBook tickBook \<and> bookId tickBook = Some (JStr ''42k3'') \<and>
   sampleIds 0 = (42, ''k3'') \<and>
   uploadBookshelf (savedFile (downloadBookshelf 9 [tickBook])) [tickBook] Merge sampleIds
     = Inr ([tickBook, tickBook], 1) \<and>
   map bookId [tickBook, tickBook] = [Some (JStr ''42k3''), Some (JStr ''42k3'')]"
proof -
  have w: "withId tickBook ''42k3'' = tickBook"
    by (simp add: tickBook_def)
  have "uploadBookshelf (savedFile (downloadBookshelf 9 [tickBook])) [tickBook] Merge sampleIds
      = Inr ([tickBook, tickBook], 1)"
    by (simp add: savedFile_def jsonParse_downloadBookshelf jsonParse_stringify_tickBook
        uploadBookshelf_books [OF property_bookshelfExport] tickBook_valid existingIds_def
        sampleIds_0 w)
  then show ?thesis
    by (simp add: tickBook_valid tickBook_id sampleIds_def)
qed

text \<open>
  Claim C7, amended. A bookshelf document holding one valid book with id \<open>x\<close> is merged
  into a collection that already has a book \<open>e\<close> with id \<open>x\<close>. The result is the old
  collection, every book as it was, followed by one more book: the imported one, which
  has the properties of the book of the document except for its id. Its id is the clock
  reading in decimal followed by the random suffix; the code compares it with nothing.
  So the imported book bears an id different from \<open>x\<close> exactly when the clock and the
  random generator do not produce \<open>x\<close> itself. They cannot when \<open>x\<close> does not begin
  with a digit or a minus sign, as the id \<^verbatim>\<open>"x"\<close>. Second part: in any merge, a
  valid book whose id is not in the collection is taken over as it is.
\<close>

theorem C7_merge_renames_collision:
  "(property data ''books'' = Some (JArr [b]) \<and> validateBook b \<and>
    bookId b = Some (JStr x) \<and> e \<in> set existing \<and> bookId e = Some (JStr x) \<longrightarrow>
      (\<exists>imported.
         uploadBookshelf (Json data) existing Merge env = Inr (existing @ [imported], 1) \<and>
         length (existing @ [imported]) = Suc (length existing) \<and>
         e \<in> set (existing @ [imported]) \<and>
         bookId imported = Some (JStr (toString (fst (env 0)) @ snd (env 0))) \<and>
         (bookId imported \<noteq> Some (JStr x)) = (toString (fst (env 0)) @ snd (env 0) \<noteq> x) \<and>
         (\<not> beginsLikeNewId x \<longrightarrow> bookId imported \<noteq> Some (JStr x)) \<and>
         (\<forall>k. k \<noteq> ''id'' \<longrightarrow> property imported k = property b k))) \<and>
   (property data ''books'' = Some (JArr cands) \<and>
    validateBook c \<and> c \<in> set cands \<and> bookId c \<notin> set (existingIds existing) \<longrightarrow>
      (\<exists>merged n.
         uploadBookshelf (Json data) existing Merge env = Inr (existing @ merged, n) \<and>
         c \<in> set merged))"
proof (intro conjI impI)
  assume h: "property data ''books'' = Some (JArr [b]) \<and> validateBook b \<and>
    bookId b = Some (JStr x) \<and> e \<in> set existing \<and> bookId e = Some (JStr x)"
  let ?new = "toString (fst (env 0)) @ snd (env 0)"
  have new: "newId (env 0) = ?new" by (simp add: newId_def)
  from h have coll: "bookId b \<in> set (existingIds existing)"
    by (force simp: existingIds_def)
  obtain kvs where b: "b = JObj kvs" using h validateBook_obj by blast
  let ?imp = "withId b ?new"
  from h have p: "property data ''books'' = Some (JArr [b])" by simp
  have "uploadBookshelf (Json data) existing Merge env = Inr (existing @ [?imp], 1)"
    using h coll by (simp add: uploadBookshelf_books [OF p] new)
  moreover have id: "bookId ?imp = Some (JStr ?new)"
    by (rule bookId_withId)
  moreover have "(bookId ?imp \<noteq> Some (JStr x)) = (?new \<noteq> x)"
    by (simp add: id)
  moreover have "\<not> beginsLikeNewId x \<longrightarrow> bookId ?imp \<noteq> Some (JStr x)"
    using newId_begins [of "env 0"] by (auto simp: id new)
  moreover have "\<forall>k. k \<noteq> ''id'' \<longrightarrow> property ?imp k = property b k"
    unfolding b using property_withId by blast
  moreover have "e \<in> set (existing @ [?imp])" using h by simp
  ultimately show "\<exists>imported.
         uploadBookshelf (Json data) existing Merge env = Inr (existing @ [imported], 1) \<and>
         length (existing @ [imported]) = Suc (length existing) \<and>
         e \<in> set (existing @ [imported]) \<and>
         bookId imported = Some (JStr (toString (fst (env 0)) @ snd (env 0))) \<and>
         (bookId imported \<noteq> Some (JStr x)) = (toString (fst (env 0)) @ snd (env 0) \<noteq> x) \<and>
         (\<not> beginsLikeNewId x \<longrightarrow> bookId imported \<noteq> Some (JStr x)) \<and>
         (\<forall>k. k \<noteq> ''id'' \<longrightarrow> property imported k = property b k)"
    by (intro exI [of _ ?imp]) simp
next
  assume h: "property data ''books'' = Some (JArr cands) \<and>
    validateBook c \<and> c \<in> set cands \<and> bookId c \<notin> set (existingIds existing)"
  then have ne: "filter validateBook cands \<noteq> []"
    by (auto simp: filter_empty_conv)
  from h have p: "property data ''books'' = Some (JArr cands)" by simp
  let ?merged = "mergeBooks (existingIds existing) env 0 (filter validateBook cands)"
  have "uploadBookshelf (Json data) existing Merge env
          = Inr (existing @ ?merged, length (filter validateBook cands))"
    using ne by (simp add: uploadBookshelf_books [OF p])
  moreover have "c \<in> set ?merged"
    using h by (intro mergeBooks_keeps) simp_all
  ultimately show "\<exists>merged n.
         uploadBookshelf (Json data) existing Merge env = Inr (existing @ merged, n) \<and>
         c \<in> set merged"
    by blast
qed

theorem C7_merge_witness:
  "property (jsonParse (downloadBookshelf 9 [moonBook])) ''books'' = Some (JArr [moonBook]) \<and>
   validateBook moonBook \<and> bookId moonBook = Some (JStr ''x'') \<and>
   moonBook \<in> set [moonBook] \<and> \<not> beginsLikeNewId ''x'' \<and>
   toString (fst (sampleIds 0)) @ snd (sampleIds 0) = ''42k3'' \<and>
   uploadBookshelf (savedFile (downloadBookshelf 9 [moonBook])) [moonBook] Merge sampleIds
     = Inr ([moonBook, withId moonBook ''42k3''], 1) \<and>
   bookId (withId moonBook ''42k3'') = Some (JStr ''42k3'') \<and>
   property (jsonParse (downloadBookshelf 9 [starBook])) ''books'' = Some (JArr [starBook]) \<and>
   validateBook starBook \<and> starBook \<in> set [starBook] \<and>
   bookId starBook \<notin> set (existingIds [moonBook]) \<and>
   (\<exists>merged n.
      uploadBookshelf (savedFile (downloadBookshelf 9 [starBook])) [moonBook] Merge sampleIds
        = Inr ([moonBook] @ merged, n) \<and>
      starBook \<in> set merged)"
proof -
  have p1: "property (jsonParse (downloadBookshelf 9 [moonBook])) ''books''
      = Some (JArr [moonBook])"
    by (simp add: jsonParse_downloadBookshelf jsonParse_stringify_moonBook
        property_bookshelfExport)
  have p2: "property (jsonParse (downloadBookshelf 9 [starBook])) ''books''
      = Some (JArr [starBook])"
    by (simp add: jsonParse_downloadBookshelf jsonParse_stringify_starBook
        property_bookshelfExport)
  have h1: "property (jsonParse (downloadBookshelf 9 [moonBook])) ''books''
        = Some (JArr [moonBook]) \<and> validateBook moonBook \<and>
      bookId moonBook = Some (JStr ''x'') \<and> moonBook \<in> set [moonBook] \<and>
      bookId moonBook = Some (JStr ''x'')"
    by (simp add: p1 moonBook_valid moonBook_id)
  have h2: "property (jsonParse (downloadBookshelf 9 [starBook])) ''books''
        = Some (JArr [starBook]) \<and> validateBook starBook \<and> starBook \<in> set [starBook] \<and>
      bookId starBook \<notin> set (existingIds [moonBook])"
    by (simp add: p2 starBook_valid starBook_id moonBook_id existingIds_def)
  have h3: "\<not> beginsLikeNewId ''x''" by (simp add: beginsLikeNewId_def)
  have n: "toString (fst (sampleIds 0)) @ snd (sampleIds 0) = ''42k3''"
    using sampleIds_0 by (simp add: newId_def)
  have u: "uploadBookshelf (savedFile (downloadBookshelf 9 [moonBook])) [moonBook] Merge
      sampleIds = Inr ([moonBook, withId moonBook ''42k3''], 1)"
    by (simp add: savedFile_def jsonParse_downloadBookshelf jsonParse_stringify_moonBook
        uploadBookshelf_books [OF property_bookshelfExport] moonBook_valid existingIds_def
        sampleIds_0)
  from C7_merge_renames_collision
         [where data = "jsonParse (downloadBookshelf 9 [moonBook])" and b = moonBook
            and x = "''x''" and e = moonBook and existing = "[moonBook]" and env = sampleIds]
       C7_merge_renames_collision
         [where data = "jsonParse (downloadBookshelf 9 [starBook])" and cands = "[starBook]"
            and c = starBook and existing = "[moonBook]" and env = sampleIds]
       h1 h2 h3 n u bookId_withId [of moonBook "''42k3''"]
  show ?thesis unfolding savedFile_def by blast
qed

text \<open>
  Claim C9, as stated, fails: a bookshelf document whose \<^verbatim>\<open>books\<close> array holds only a
  candidate without an id is not imported with that candidate dropped. The import stops
  with the error for "no valid book data found".
\<close>

theorem C9_counterexample:
  "property (JObj [(''books'', JArr [noIdBook])]) ''books'' = Some (JArr [noIdBook]) \<and>
   \<not> validateBook noIdBook \<and>
   uploadBookshelf (Json (JObj [(''books'', JArr [noIdBook])])) [] Replace sampleIds
     = Inl NoValidBooks \<and>
   uploadBookshelf (Json (JObj [(''books'', JArr [noIdBook])])) [] Merge sampleIds
     = Inl NoValidBooks"
  by (simp add: noIdBook_invalid uploadBookshelf_def parseFile_def truthyProp_def)

text \<open>
  Claim C9, amended. Let the document of a bookshelf import have a \<^verbatim>\<open>books\<close> array.
  If at least one candidate passes the validation, the candidates that fail it are
  dropped without an error and exactly the valid ones are imported, in their order:
  replace mode returns them as the new collection, merge mode appends to the old
  collection one book for each of them, the valid candidate itself or its copy under a
  new id, and the count reported is the number of valid candidates. If no candidate is
  valid, the import fails with the error for no valid book data. In a single-book
  import a candidate that fails the validation is rejected with the error for a wrong
  book format.
\<close>

theorem C9_import_drops_invalid:
  "(property data ''books'' = Some (JArr cands) \<and> filter validateBook cands \<noteq> [] \<longrightarrow>
      uploadBookshelf (Json data) existing Replace env
        = Inr (filter validateBook cands, length (filter validateBook cands)) \<and>
      (\<exists>merged.
         uploadBookshelf (Json data) existing Merge env
           = Inr (existing @ merged, length (filter validateBook cands)) \<and>
         length merged = length (filter validateBook cands) \<and>
         (\<forall>i<length merged.
            merged ! i = filter validateBook cands ! i \<or>
            (\<exists>j. merged ! i = withId (filter validateBook cands ! i) (newId (env j)))))) \<and>
   (property data ''books'' = Some (JArr cands) \<and> filter validateBook cands = [] \<longrightarrow>
      uploadBookshelf (Json data) existing m env = Inl NoValidBooks) \<and>
   (d \<noteq> JNull \<and> candidateBook d (property d ''book'') = Inr c \<and> \<not> validateBook c \<longrightarrow>
      uploadSingleBook (Json d) existing env = Inl InvalidBookFormat)"
proof (intro conjI impI)
  assume h: "property data ''books'' = Some (JArr cands) \<and> filter validateBook cands \<noteq> []"
  then show "uploadBookshelf (Json data) existing Replace env
        = Inr (filter validateBook cands, length (filter validateBook cands))"
    by (simp add: uploadBookshelf_books)
  let ?valid = "filter validateBook cands"
  let ?merged = "mergeBooks (existingIds existing) env 0 ?valid"
  have "uploadBookshelf (Json data) existing Merge env = Inr (existing @ ?merged, length ?valid)"
    using h by (simp add: uploadBookshelf_books)
  moreover have "length ?merged = length ?valid"
    by (rule length_mergeBooks)
  moreover have "\<forall>i<length ?merged. ?merged ! i = ?valid ! i \<or>
            (\<exists>j. ?merged ! i = withId (?valid ! i) (newId (env j)))"
    using mergeBooks_nth [of _ ?valid "existingIds existing" env 0]
    by (auto simp: length_mergeBooks)
  ultimately show "\<exists>merged.
         uploadBookshelf (Json data) existing Merge env
           = Inr (existing @ merged, length (filter validateBook cands)) \<and>
         length merged = length (filter validateBook cands) \<and>
         (\<forall>i<length merged.
            merged ! i = filter validateBook cands ! i \<or>
            (\<exists>j. merged ! i = withId (filter validateBook cands ! i) (newId (env j))))"
    by blast
next
  assume "property data ''books'' = Some (JArr cands) \<and> filter validateBook cands = []"
  then show "uploadBookshelf (Json data) existing m env = Inl NoValidBooks"
    by (simp add: uploadBookshelf_books)
next
  assume "d \<noteq> JNull \<and> candidateBook d (property d ''book'') = Inr c \<and> \<not> validateBook c"
  then show "uploadSingleBook (Json d) existing env = Inl InvalidBookFormat"
    by (simp add: uploadSingleBook_candidate)
qed

theorem C9_import_witness:
  "property (bookshelfExport 9 [noIdBook, moonBook, JNull, starBook]) ''books''
     = Some (JArr [noIdBook, moonBook, JNull, starBook]) \<and>
   filter validateBook [noIdBook, moonBook, JNull, starBook] = [moonBook, starBook] \<and>
   uploadBookshelf (Json (bookshelfExport 9 [noIdBook, moonBook, JNull, starBook]))
     [moonBook] Replace sampleIds = Inr ([moonBook, starBook], 2) \<and>
   (\<exists>merged.
      uploadBookshelf (Json (bookshelfExport 9 [noIdBook, moonBook, JNull, starBook]))
        [moonBook] Merge sampleIds = Inr ([moonBook] @ merged, 2) \<and> length merged = 2) \<and>
   property (bookshelfExport 9 [noIdBook]) ''books'' = Some (JArr [noIdBook]) \<and>
   filter validateBook [noIdBook] = [] \<and>
   uploadBookshelf (Json (bookshelfExport 9 [noIdBook])) [moonBook] Merge sampleIds
     = Inl NoValidBooks \<and>
   singleBookExport 9 noIdBook \<noteq> JNull \<and>
   candidateBook (singleBookExport 9 noIdBook)
     (property (singleBookExport 9 noIdBook) ''book'') = Inr noIdBook \<and>
   \<not> validateBook noIdBook \<and>
   uploadSingleBook (Json (singleBookExport 9 noIdBook)) [moonBook] sampleIds
     = Inl InvalidBookFormat"
proof -
  have v: "filter validateBook [noIdBook, moonBook, JNull, starBook] = [moonBook, starBook]"
    by (simp add: noIdBook_invalid moonBook_valid starBook_valid validateBook_def [of JNull])
  have h1: "property (bookshelfExport 9 [noIdBook, moonBook, JNull, starBook]) ''books''
     = Some (JArr [noIdBook, moonBook, JNull, starBook]) \<and>
     filter validateBook [noIdBook, moonBook, JNull, starBook] \<noteq> []"
    by (simp add: moonBook_valid property_bookshelfExport)
  have h2: "property (bookshelfExport 9 [noIdBook]) ''books'' = Some (JArr [noIdBook]) \<and>
     filter validateBook [noIdBook] = []"
    by (simp add: noIdBook_invalid property_bookshelfExport)
  have h3: "singleBookExport 9 noIdBook \<noteq> JNull \<and>
     candidateBook (singleBookExport 9 noIdBook)
       (property (singleBookExport 9 noIdBook) ''book'') = Inr noIdBook \<and>
     \<not> validateBook noIdBook"
    by (simp add: noIdBook_invalid singleBookExport_def candidateBook_def)
       (simp add: noIdBook_def)
  from C9_import_drops_invalid
         [where data = "bookshelfExport 9 [noIdBook, moonBook, JNull, starBook]"
            and cands = "[noIdBook, moonBook, JNull, starBook]" and existing = "[moonBook]"
            and env = sampleIds and d = "singleBookExport 9 noIdBook" and c = noIdBook]
       C9_import_drops_invalid
         [where data = "bookshelfExport 9 [noIdBook]" and cands = "[noIdBook]"
            and existing = "[moonBook]" and env = sampleIds and m = Merge]
       h1 h2 h3 v
  show ?thesis by auto
qed

text \<open>
  Claim C10. In a single-book import the \<^verbatim>\<open>book\<close> field counts when its value is
  truthy. When it does not count (the field is missing, or holds a falsy value) and
  \<^verbatim>\<open>books\<close> is a non-empty array, the first element \<open>c\<close> of that array is the
  candidate: it is validated, given a new id when its id is already in the collection,
  and put in front of the collection. The import fails with the error for "book data
  not found" exactly when the document is not \<^verbatim>\<open>null\<close>, its \<^verbatim>\<open>book\<close> field does not
  count and its \<^verbatim>\<open>books\<close> field is not a non-empty array.
\<close>

theorem C10_single_import_falls_back:
  "(\<not> truthyProp (property data ''book'') \<and> property data ''books'' = Some (JArr (c # cs)) \<longrightarrow>
      uploadSingleBook (Json data) existing env =
        (if \<not> validateBook c then Inl InvalidBookFormat
         else if bookId c \<in> set (existingIds existing)
         then Inr (withId c (newId (env 0)) # existing, withId c (newId (env 0)))
         else Inr (c # existing, c))) \<and>
   ((uploadSingleBook (Json data) existing env = Inl BookNotFound) =
      (data \<noteq> JNull \<and> \<not> truthyProp (property data ''book'') \<and>
       (\<forall>c cs. property data ''books'' \<noteq> Some (JArr (c # cs)))))"
proof (intro conjI impI)
  assume h: "\<not> truthyProp (property data ''book'') \<and>
    property data ''books'' = Some (JArr (c # cs))"
  then have nn: "data \<noteq> JNull" by auto
  from h have "candidateBook data (property data ''book'') = Inr c"
    by (auto simp: candidateBook_def firstOfBooks_def truthyProp_def split: option.splits)
  then show "uploadSingleBook (Json data) existing env =
        (if \<not> validateBook c then Inl InvalidBookFormat
         else if bookId c \<in> set (existingIds existing)
         then Inr (withId c (newId (env 0)) # existing, withId c (newId (env 0)))
         else Inr (c # existing, c))"
    by (simp add: uploadSingleBook_candidate [OF nn])
next
  show "(uploadSingleBook (Json data) existing env = Inl BookNotFound) =
      (data \<noteq> JNull \<and> \<not> truthyProp (property data ''book'') \<and>
       (\<forall>c cs. property data ''books'' \<noteq> Some (JArr (c # cs))))"
  proof (cases "data = JNull")
    case True
    then show ?thesis
      by (simp add: uploadSingleBook_def parseFile_def)
  next
    case False
    have cand: "(candidateBook data (property data ''book'') = Inl BookNotFound) =
      (\<not> truthyProp (property data ''book'') \<and>
       (\<forall>c cs. property data ''books'' \<noteq> Some (JArr (c # cs))))"
      by (auto simp: candidateBook_def firstOfBooks_def truthyProp_def
          split: option.splits json.splits list.splits)
    have err: "\<And>e. candidateBook data (property data ''book'') = Inl e \<Longrightarrow> e = BookNotFound"
      by (auto simp: candidateBook_def firstOfBooks_def
          split: option.splits json.splits list.splits if_splits)
    show ?thesis
      using False cand err
      by (auto simp: uploadSingleBook_candidate [OF False] split: sum.splits if_splits)
  qed
qed

theorem C10_single_import_witness:
  "\<not> truthyProp (property (bookshelfExport 9 [starBook, moonBook]) ''book'') \<and>
   property (bookshelfExport 9 [starBook, moonBook]) ''books''
     = Some (JArr (starBook # [moonBook])) \<and>
   uploadSingleBook (Json (bookshelfExport 9 [starBook, moonBook])) [moonBook] sampleIds
     = Inr ([starBook, moonBook], starBook) \<and>
   uploadSingleBook (Json (JObj [(''book'', JNull), (''books'', JArr [])])) [moonBook] sampleIds
     = Inl BookNotFound"
proof -
  have h: "\<not> truthyProp (property (bookshelfExport 9 [starBook, moonBook]) ''book'') \<and>
     property (bookshelfExport 9 [starBook, moonBook]) ''books''
       = Some (JArr (starBook # [moonBook]))"
    by (simp add: bookshelfExport_def truthyProp_def)
  have i: "bookId starBook \<notin> set (existingIds [moonBook])"
    by (simp add: existingIds_def starBook_id moonBook_id)
  have n: "JObj [(''book'', JNull), (''books'', JArr [])] \<noteq> JNull \<and>
     \<not> truthyProp (property (JObj [(''book'', JNull), (''books'', JArr [])]) ''book'') \<and>
     (\<forall>c cs. property (JObj [(''book'', JNull), (''books'', JArr [])]) ''books''
         \<noteq> Some (JArr (c # cs)))"
    by (simp add: truthyProp_def)
  from C10_single_import_falls_back
         [where data = "bookshelfExport 9 [starBook, moonBook]" and c = starBook
            and cs = "[moonBook]" and existing = "[moonBook]" and env = sampleIds]
       C10_single_import_falls_back
         [where data = "JObj [(''book'', JNull), (''books'', JArr [])]"
            and existing = "[moonBook]" and env = sampleIds]
       h i n starBook_valid
  show ?thesis by simp
qed

subsection \<open>The requests of the generation run\<close>

lemma setProgress_fields [simp]:
  "calls (setProgress p st) = calls st"
  "snapshots (setProgress p st) = snapshots st @ [p]"
  "onGenerate (setProgress p st) = onGenerate st"
  "error (setProgress p st) = error st"
  "isGenerating (setProgress p st) = isGenerating st"
  "world (setProgress p st) = world st"
  by (simp_all add: setProgress_def)

lemma callStoryText_effect:
  assumes "callStoryText svc key inp i ts st = (r, st')"
  shows "calls st' = calls st @ [StoryTextCall i (pageCount inp) ts r]"
    and "snapshots st' = snapshots st" and "onGenerate st' = onGenerate st"
    and "error st' = error st" and "isGenerating st' = isGenerating st"
  using assms by (auto simp: callStoryText_def split: prod.splits)

lemma callImagePrompt_effect:
  assumes "callImagePrompt svc key inp t storyText ds st = (r, st')"
  shows "calls st' = calls st @ [ImagePromptCall t storyText ds r]"
    and "snapshots st' = snapshots st" and "onGenerate st' = onGenerate st"
    and "error st' = error st" and "isGenerating st' = isGenerating st"
  using assms by (auto simp: callImagePrompt_def split: prod.splits)

lemma callImage_effect:
  assumes "callImage svc key inp t p st = (r, st')"
  shows "calls st' = calls st @ [ImageCall t p r]"
    and "snapshots st' = snapshots st" and "onGenerate st' = onGenerate st"
    and "error st' = error st" and "isGenerating st' = isGenerating st"
  using assms by (auto simp: callImage_def split: prod.splits)

lemma readClock_effect:
  assumes "readClock svc st = (now, st')"
  shows "calls st' = calls st"
    and "snapshots st' = snapshots st" and "onGenerate st' = onGenerate st"
    and "error st' = error st" and "isGenerating st' = isGenerating st"
  using assms by (auto simp: readClock_def split: prod.splits)

lemma callAnalysis_effect:
  assumes "callAnalysis svc key inp st = (ds, st')"
  shows "calls st' = calls st @ [AnalysisCall (baseImages inp) ds]"
    and "snapshots st' = snapshots st" and "onGenerate st' = onGenerate st"
    and "error st' = error st" and "isGenerating st' = isGenerating st"
  using assms by (auto simp: callAnalysis_def split: prod.splits)

text \<open>One pass of the loop body, by its three requests.\<close>

lemma pageBody_cases:
  assumes "pageBody svc key inp ds i ps ts st = (r, st')"
  obtains
    (story) e st2 where
      "callStoryText svc key inp i ts
         (setProgress \<lparr>current = i, progress_total = pageCount inp + 2,
                       progress_message = WritingStory i (pageCount inp)\<rparr> st) = (Inl e, st2)"
      "r = Inl e" "st' = st2"
  | (prompt) t st2 e st4 where
      "callStoryText svc key inp i ts
         (setProgress \<lparr>current = i, progress_total = pageCount inp + 2,
                       progress_message = WritingStory i (pageCount inp)\<rparr> st) = (Inr t, st2)"
      "callImagePrompt svc key inp (PageImage i) t ds
         (setProgress \<lparr>current = i, progress_total = pageCount inp + 2,
                       progress_message = DrawingIllustration i (pageCount inp)\<rparr> st2)
         = (Inl e, st4)"
      "r = Inl e" "st' = st4"
  | (page) t st2 p st4 ri st5 now where
      "callStoryText svc key inp i ts
         (setProgress \<lparr>current = i, progress_total = pageCount inp + 2,
                       progress_message = WritingStory i (pageCount inp)\<rparr> st) = (Inr t, st2)"
      "callImagePrompt svc key inp (PageImage i) t ds
         (setProgress \<lparr>current = i, progress_total = pageCount inp + 2,
                       progress_message = DrawingIllustration i (pageCount inp)\<rparr> st2)
         = (Inr p, st4)"
      "callImage svc key inp (PageImage i) p st4 = (ri, st5)"
      "readClock svc st5 = (now, st')"
      "r = Inr (ps @ [\<lparr>page_id = toString now @ digits i,
                        page_image = (case ri of Inl x \<Rightarrow> None | Inr d \<Rightarrow> Some d),
                        page_imageScale = 1, page_text = t\<rparr>], ts @ [t])"
  using assms unfolding pageBody_def
  by (auto split: prod.splits sum.splits)

lemma pageBody_Inr:
  assumes "pageBody svc key inp ds i ps ts st = (Inr (ps', ts'), st')"
  shows "\<exists>t p ri now.
     calls st' = calls st @
       [StoryTextCall i (pageCount inp) ts (Inr t),
        ImagePromptCall (PageImage i) t ds (Inr p),
        ImageCall (PageImage i) p ri] \<and>
     ps' = ps @ [\<lparr>page_id = toString now @ digits i,
                   page_image = (case ri of Inl x \<Rightarrow> None | Inr d \<Rightarrow> Some d),
                   page_imageScale = 1, page_text = t\<rparr>] \<and>
     ts' = ts @ [t]"
  using assms
proof (cases rule: pageBody_cases)
  case (page t st2 p st4 ri st5 now)
  have "calls st' = calls st @
       [StoryTextCall i (pageCount inp) ts (Inr t),
        ImagePromptCall (PageImage i) t ds (Inr p),
        ImageCall (PageImage i) p ri]"
    using callStoryText_effect(1) [OF page(1)] callImagePrompt_effect(1) [OF page(2)]
      callImage_effect(1) [OF page(3)] readClock_effect(1) [OF page(4)]
    by simp
  with page(5) show ?thesis by auto
qed simp_all

lemma pageBody_Inl:
  assumes "pageBody svc key inp ds i ps ts st = (Inl e, st')"
  shows "\<exists>ok c. calls st' = calls st @ ok @ [c] \<and>
           (\<forall>x\<in>set ok. pageTextFailure x = None) \<and> pageTextFailure c = Some e"
  using assms
proof (cases rule: pageBody_cases)
  case (story e' st2)
  then have "calls st' = calls st @ [] @ [StoryTextCall i (pageCount inp) ts (Inl e)]"
    using callStoryText_effect(1) [OF story(1)] by simp
  then show ?thesis by (intro exI [of _ "[]"] exI conjI) auto
next
  case (prompt t st2 e' st4)
  then have "calls st' = calls st @ [StoryTextCall i (pageCount inp) ts (Inr t)] @
      [ImagePromptCall (PageImage i) t ds (Inl e)]"
    using callStoryText_effect(1) [OF prompt(1)] callImagePrompt_effect(1) [OF prompt(2)]
    by simp
  then show ?thesis
    by (intro exI [of _ "[StoryTextCall i (pageCount inp) ts (Inr t)]"] exI conjI) auto
qed simp

lemma pageBody_frame:
  assumes "pageBody svc key inp ds i ps ts st = (r, st')"
  shows "onGenerate st' = onGenerate st \<and> error st' = error st \<and>
         isGenerating st' = isGenerating st"
  using assms
proof (cases rule: pageBody_cases)
  case (story e st2)
  then show ?thesis using callStoryText_effect [OF story(1)] by simp
next
  case (prompt t st2 e st4)
  then show ?thesis
    using callStoryText_effect [OF prompt(1)] callImagePrompt_effect [OF prompt(2)] by simp
next
  case (page t st2 p st4 ri st5 now)
  then show ?thesis
    using callStoryText_effect [OF page(1)] callImagePrompt_effect [OF page(2)]
      callImage_effect [OF page(3)] readClock_effect [OF page(4)] by simp
qed

lemma pageBody_snapshots:
  assumes "pageBody svc key inp ds i ps ts st = (r, st')"
  shows "\<exists>new. snapshots st' = snapshots st @ new \<and> new \<noteq> [] \<and>
           (\<forall>p\<in>set new. current p = i \<and> progress_total p = pageCount inp + 2)"
  using assms
proof (cases rule: pageBody_cases)
  case (story e st2)
  then show ?thesis using callStoryText_effect(2) [OF story(1)] by simp
next
  case (prompt t st2 e st4)
  then show ?thesis
    using callStoryText_effect(2) [OF prompt(1)] callImagePrompt_effect(2) [OF prompt(2)]
    by simp
next
  case (page t st2 p st4 ri st5 now)
  then show ?thesis
    using callStoryText_effect(2) [OF page(1)] callImagePrompt_effect(2) [OF page(2)]
      callImage_effect(2) [OF page(3)] readClock_effect(2) [OF page(4)] by simp
qed

text \<open>Two rules for the loop: a property kept by every pass that adds a page holds when
  the loop ends, and holds before the pass that fails.\<close>

lemma pagesLoop_Inr_rule:
  assumes loop: "pagesLoop svc key inp ds i ps ts st = (Inr ps', st')"
    and init: "I i ps ts st"
    and step: "\<And>j qs us s qs' us' s'.
           I j qs us s \<Longrightarrow> j \<le> pageCount inp \<Longrightarrow>
           pageBody svc key inp ds j qs us s = (Inr (qs', us'), s') \<Longrightarrow> I (Suc j) qs' us' s'"
  shows "\<exists>j us. \<not> j \<le> pageCount inp \<and> I j ps' us st'"
  using loop init
proof (induction "Suc (pageCount inp) - i" arbitrary: i ps ts st)
  case 0
  then have "\<not> i \<le> pageCount inp" by simp
  with "0.prems" show ?case
    by (auto simp: pagesLoop.simps [of svc key inp ds i])
next
  case (Suc n)
  then have le: "i \<le> pageCount inp" by simp
  obtain r s1 where pb: "pageBody svc key inp ds i ps ts st = (r, s1)"
    by (cases "pageBody svc key inp ds i ps ts st")
  with le Suc.prems(1) obtain qs us where r: "r = Inr (qs, us)"
    and rest: "pagesLoop svc key inp ds (Suc i) qs us s1 = (Inr ps', st')"
    by (cases r) (auto simp: pagesLoop.simps [of svc key inp ds i])
  have inv: "I (Suc i) qs us s1"
    using step [OF Suc.prems(2) le] pb r by simp
  from Suc.hyps(2) have "n = Suc (pageCount inp) - Suc i" by simp
  from Suc.hyps(1) [OF this rest inv] show ?case .
qed

lemma pagesLoop_Inl_rule:
  assumes loop: "pagesLoop svc key inp ds i ps ts st = (Inl e, st')"
    and init: "I i ps ts st"
    and step: "\<And>j qs us s qs' us' s'.
           I j qs us s \<Longrightarrow> j \<le> pageCount inp \<Longrightarrow>
           pageBody svc key inp ds j qs us s = (Inr (qs', us'), s') \<Longrightarrow> I (Suc j) qs' us' s'"
  shows "\<exists>j qs us s. j \<le> pageCount inp \<and> I j qs us s \<and>
           pageBody svc key inp ds j qs us s = (Inl e, st')"
  using loop init
proof (induction "Suc (pageCount inp) - i" arbitrary: i ps ts st)
  case 0
  then have "\<not> i \<le> pageCount inp" by simp
  with "0.prems" show ?case
    by (simp add: pagesLoop.simps [of svc key inp ds i])
next
  case (Suc n)
  then have le: "i \<le> pageCount inp" by simp
  obtain r s1 where pb: "pageBody svc key inp ds i ps ts st = (r, s1)"
    by (cases "pageBody svc key inp ds i ps ts st")
  show ?case
  proof (cases r)
    case (Inl e')
    with le pb Suc.prems(1) have "e' = e" "s1 = st'"
      by (simp_all add: pagesLoop.simps [of svc key inp ds i])
    with Inl pb le Suc.prems(2) show ?thesis by blast
  next
    case (Inr y)
    obtain qs us where y: "y = (qs, us)" by (cases y)
    with Inr le pb Suc.prems(1)
    have rest: "pagesLoop svc key inp ds (Suc i) qs us s1 = (Inl e, st')"
      by (simp add: pagesLoop.simps [of svc key inp ds i])
    have inv: "I (Suc i) qs us s1"
      using step [OF Suc.prems(2) le] pb Inr y by simp
    from Suc.hyps(2) have "n = Suc (pageCount inp) - Suc i" by simp
    from Suc.hyps(1) [OF this rest inv] show ?thesis .
  qed
qed

lemma sorted_map_const:
  "\<forall>p\<in>set xs. f p = (c::nat) \<Longrightarrow> sorted (map f xs)"
  by (induction xs) auto

lemma pagesLoop_frame:
  assumes "pagesLoop svc key inp ds i ps ts st = (r, st')"
  shows "onGenerate st' = onGenerate st \<and> error st' = error st \<and>
         isGenerating st' = isGenerating st"
proof -
  let ?I = "\<lambda>(j::nat) (qs::storyPage list) (us::string list) s.
     onGenerate s = onGenerate st \<and> error s = error st \<and> isGenerating s = isGenerating st"
  have init: "?I i ps ts st" by simp
  have step: "?I (Suc j) qs' us' s'"
    if "?I j qs us s" and "j \<le> pageCount inp"
      and "pageBody svc key inp ds j qs us s = (Inr (qs', us'), s')"
    for j qs us s qs' us' s'
    using that(1) pageBody_frame [OF that(3)] by simp
  show ?thesis
  proof (cases r)
    case (Inr ps')
    with assms have "pagesLoop svc key inp ds i ps ts st = (Inr ps', st')" by simp
    then have "\<exists>j us. \<not> j \<le> pageCount inp \<and> ?I j ps' us st'"
      by (rule pagesLoop_Inr_rule [where I = ?I, OF _ init]) (rule step; assumption)
    then show ?thesis by blast
  next
    case (Inl e)
    with assms have "pagesLoop svc key inp ds i ps ts st = (Inl e, st')" by simp
    then have "\<exists>j qs us s. j \<le> pageCount inp \<and> ?I j qs us s \<and>
        pageBody svc key inp ds j qs us s = (Inl e, st')"
      by (rule pagesLoop_Inl_rule [where I = ?I, OF _ init]) (rule step; assumption)
    then obtain j qs us s where "?I j qs us s"
      and pb: "pageBody svc key inp ds j qs us s = (Inl e, st')"
      by blast
    with pageBody_frame [OF pb] show ?thesis by simp
  qed
qed

text \<open>When the loop ends, it has made one page for every index, each story text request
  got the texts of the pages before it, and no text request of a page failed.\<close>

lemma pagesLoop_pages:
  assumes "pagesLoop svc key inp ds 1 [] [] st = (Inr ps', st')"
  shows "length ps' = pageCount inp \<and>
    (\<exists>new. calls st' = calls st @ new \<and>
       (\<forall>x\<in>set new. pageTextFailure x = None) \<and>
       filter isStoryTextCall new =
         map (\<lambda>k. StoryTextCall (Suc k) (pageCount inp) (take k (map page_text ps'))
                    (Inr (map page_text ps' ! k))) [0..<pageCount inp] \<and>
       ((\<forall>x\<in>set new. \<not> imageSuccess x) \<longrightarrow> (\<forall>q\<in>set ps'. page_image q = None)))"
proof -
  let ?f = "\<lambda>us k. StoryTextCall (Suc k) (pageCount inp) (take k us) (Inr (us ! k))"
  let ?I = "\<lambda>j qs us s.
     j = Suc (length qs) \<and> j \<le> Suc (pageCount inp) \<and> us = map page_text qs \<and>
     (\<exists>new. calls s = calls st @ new \<and>
        (\<forall>x\<in>set new. pageTextFailure x = None) \<and>
        filter isStoryTextCall new = map (?f us) [0..<length qs] \<and>
        ((\<forall>x\<in>set new. \<not> imageSuccess x) \<longrightarrow> (\<forall>q\<in>set qs. page_image q = None)))"
  have init: "?I 1 [] [] st" by simp
  have step: "?I (Suc j) qs' us' s'"
    if inv: "?I j qs us s" and le: "j \<le> pageCount inp"
      and pb: "pageBody svc key inp ds j qs us s = (Inr (qs', us'), s')"
    for j qs us s qs' us' s'
  proof -
    from inv obtain new where j: "j = Suc (length qs)" and us: "us = map page_text qs"
      and c: "calls s = calls st @ new" and nf: "\<forall>x\<in>set new. pageTextFailure x = None"
      and fl: "filter isStoryTextCall new = map (?f us) [0..<length qs]"
      and im: "(\<forall>x\<in>set new. \<not> imageSuccess x) \<longrightarrow> (\<forall>q\<in>set qs. page_image q = None)"
      by blast
    from pageBody_Inr [OF pb] obtain t p ri now where
      c': "calls s' = calls s @
         [StoryTextCall j (pageCount inp) us (Inr t),
          ImagePromptCall (PageImage j) t ds (Inr p),
          ImageCall (PageImage j) p ri]"
      and qs': "qs' = qs @ [\<lparr>page_id = toString now @ digits j,
                   page_image = (case ri of Inl x \<Rightarrow> None | Inr d \<Rightarrow> Some d),
                   page_imageScale = 1, page_text = t\<rparr>]"
      and us': "us' = us @ [t]"
      by blast
    let ?new' = "new @ [StoryTextCall j (pageCount inp) us (Inr t),
          ImagePromptCall (PageImage j) t ds (Inr p),
          ImageCall (PageImage j) p ri]"
    have len: "length us = length qs" using us by simp
    have same: "map (?f us') [0..<length qs] = map (?f us) [0..<length qs]"
      using len by (simp add: us' nth_append)
    have last: "?f us' (length qs) = StoryTextCall j (pageCount inp) us (Inr t)"
      using len j by (simp add: us' nth_append)
    have "filter isStoryTextCall ?new' =
        filter isStoryTextCall new @ [StoryTextCall j (pageCount inp) us (Inr t)]"
      by simp
    also have "\<dots> = map (?f us) [0..<length qs] @ [?f us' (length qs)]"
      by (simp only: fl last)
    also have "\<dots> = map (?f us') [0..<length qs] @ [?f us' (length qs)]"
      by (simp only: same)
    also have "\<dots> = map (?f us') [0..<Suc (length qs)]"
      by simp
    finally have "filter isStoryTextCall ?new' = map (?f us') [0..<length qs']"
      by (simp only: qs' length_append list.size) simp
    moreover have "\<forall>x\<in>set ?new'. pageTextFailure x = None"
      using nf by simp
    moreover have "(\<forall>x\<in>set ?new'. \<not> imageSuccess x) \<longrightarrow> (\<forall>q\<in>set qs'. page_image q = None)"
      using im by (cases ri) (auto simp: qs')
    moreover have "calls s' = calls st @ ?new'"
      using c c' by simp
    moreover have "us' = map page_text qs'"
      using us by (simp add: us' qs')
    moreover have "Suc j = Suc (length qs')" "Suc j \<le> Suc (pageCount inp)"
      using j le by (simp_all add: qs')
    ultimately show ?thesis by blast
  qed
  have "\<exists>j us. \<not> j \<le> pageCount inp \<and> ?I j ps' us st'"
    by (rule pagesLoop_Inr_rule [where I = ?I, OF assms init]) (rule step; assumption)
  then obtain j us where "\<not> j \<le> pageCount inp" and "?I j ps' us st'"
    by blast
  then have "length ps' = pageCount inp" and "us = map page_text ps'"
    and "\<exists>new. calls st' = calls st @ new \<and>
        (\<forall>x\<in>set new. pageTextFailure x = None) \<and>
        filter isStoryTextCall new = map (?f us) [0..<length ps'] \<and>
        ((\<forall>x\<in>set new. \<not> imageSuccess x) \<longrightarrow> (\<forall>q\<in>set ps'. page_image q = None))"
    by auto
  then show ?thesis by auto
qed

text \<open>When the loop is left by an error, that error is the last request, a text request
  of a page, and the only one that failed.\<close>

lemma pagesLoop_failure:
  assumes "pagesLoop svc key inp ds i ps ts st = (Inl e, st')"
  shows "\<exists>ok c. calls st' = calls st @ ok @ [c] \<and>
           (\<forall>x\<in>set ok. pageTextFailure x = None) \<and> pageTextFailure c = Some e"
proof -
  let ?I = "\<lambda>(j::nat) (qs::storyPage list) (us::string list) s.
     \<exists>new. calls s = calls st @ new \<and> (\<forall>x\<in>set new. pageTextFailure x = None)"
  have init: "?I i ps ts st" by simp
  have step: "?I (Suc j) qs' us' s'"
    if inv: "?I j qs us s" and le: "j \<le> pageCount inp"
      and pb: "pageBody svc key inp ds j qs us s = (Inr (qs', us'), s')"
    for j qs us s qs' us' s'
  proof -
    from inv obtain new where c: "calls s = calls st @ new"
      and nf: "\<forall>x\<in>set new. pageTextFailure x = None" by blast
    from pageBody_Inr [OF pb] obtain t p ri where
      "calls s' = calls s @
         [StoryTextCall j (pageCount inp) us (Inr t),
          ImagePromptCall (PageImage j) t ds (Inr p),
          ImageCall (PageImage j) p ri]"
      by blast
    with c have "calls s' = calls st @ (new @
         [StoryTextCall j (pageCount inp) us (Inr t),
          ImagePromptCall (PageImage j) t ds (Inr p),
          ImageCall (PageImage j) p ri])" by simp
    moreover have "\<forall>x\<in>set (new @
         [StoryTextCall j (pageCount inp) us (Inr t),
          ImagePromptCall (PageImage j) t ds (Inr p),
          ImageCall (PageImage j) p ri]). pageTextFailure x = None"
      using nf by simp
    ultimately show ?thesis by blast
  qed
  have "\<exists>j qs us s. j \<le> pageCount inp \<and> ?I j qs us s \<and>
      pageBody svc key inp ds j qs us s = (Inl e, st')"
    by (rule pagesLoop_Inl_rule [where I = ?I, OF assms init]) (rule step; assumption)
  then obtain j qs us s new where c: "calls s = calls st @ new"
    and nf: "\<forall>x\<in>set new. pageTextFailure x = None"
    and pb: "pageBody svc key inp ds j qs us s = (Inl e, st')"
    by blast
  from pageBody_Inl [OF pb] obtain ok c' where
    c': "calls st' = calls s @ ok @ [c']" and ok: "\<forall>x\<in>set ok. pageTextFailure x = None"
    and f: "pageTextFailure c' = Some e"
    by blast
  have "calls st' = calls st @ (new @ ok) @ [c']" using c c' by simp
  moreover have "\<forall>x\<in>set (new @ ok). pageTextFailure x = None" using nf ok by auto
  ultimately show ?thesis using f by blast
qed

text \<open>The snapshots of the loop: in page order, from 1 to the page count.\<close>

lemma pagesLoop_snapshots:
  assumes "pagesLoop svc key inp ds 1 ps ts st = (r, st')"
  shows "\<exists>new. snapshots st' = snapshots st @ new \<and> sorted (map current new) \<and>
     (\<forall>p\<in>set new. current p \<le> pageCount inp \<and> progress_total p = pageCount inp + 2)"
proof -
  let ?I = "\<lambda>j (qs::storyPage list) (us::string list) s.
     j \<le> Suc (pageCount inp) \<and>
     (\<exists>new. snapshots s = snapshots st @ new \<and> sorted (map current new) \<and>
        (\<forall>p\<in>set new. current p < j \<and> progress_total p = pageCount inp + 2))"
  have init: "?I 1 ps ts st" by simp
  have grow: "\<exists>new'. snapshots s' = snapshots st @ new' \<and> sorted (map current new') \<and>
        (\<forall>p\<in>set new'. current p < Suc j \<and> progress_total p = pageCount inp + 2)"
    if inv: "?I j qs us s" and pb: "pageBody svc key inp ds j qs us s = (x, s')"
    for j qs us s x s'
  proof -
    from inv obtain new where sn: "snapshots s = snapshots st @ new"
      and so: "sorted (map current new)"
      and bd: "\<forall>p\<in>set new. current p < j \<and> progress_total p = pageCount inp + 2"
      by blast
    from pageBody_snapshots [OF pb] obtain added where
      ad: "snapshots s' = snapshots s @ added"
      and eq: "\<forall>p\<in>set added. current p = j \<and> progress_total p = pageCount inp + 2"
      by blast
    have "sorted (map current added)"
      using eq by (intro sorted_map_const [where c = j]) simp
    with so bd eq have "sorted (map current (new @ added))"
      by (auto simp: sorted_append less_imp_le)
    moreover have "\<forall>p\<in>set (new @ added). current p < Suc j \<and>
        progress_total p = pageCount inp + 2"
      using bd eq by (auto simp: less_Suc_eq)
    moreover have "snapshots s' = snapshots st @ (new @ added)"
      using sn ad by simp
    ultimately show ?thesis by blast
  qed
  have step: "?I (Suc j) qs' us' s'"
    if inv: "?I j qs us s" and le: "j \<le> pageCount inp"
      and pb: "pageBody svc key inp ds j qs us s = (Inr (qs', us'), s')"
    for j qs us s qs' us' s'
    using grow [OF inv pb] le by simp
  have weaken: "\<exists>new. snapshots s' = snapshots st @ new \<and> sorted (map current new) \<and>
     (\<forall>p\<in>set new. current p \<le> pageCount inp \<and> progress_total p = pageCount inp + 2)"
    if "k \<le> Suc (pageCount inp)"
      and "\<exists>new. snapshots s' = snapshots st @ new \<and> sorted (map current new) \<and>
        (\<forall>p\<in>set new. current p < k \<and> progress_total p = pageCount inp + 2)"
    for k s'
  proof -
    from that(2) obtain new where sn: "snapshots s' = snapshots st @ new"
      and so: "sorted (map current new)"
      and bd: "\<forall>p\<in>set new. current p < k \<and> progress_total p = pageCount inp + 2"
      by blast
    have "\<forall>p\<in>set new. current p \<le> pageCount inp \<and> progress_total p = pageCount inp + 2"
    proof
      fix p assume "p \<in> set new"
      with bd have "current p < k" and "progress_total p = pageCount inp + 2" by simp_all
      with that(1) show "current p \<le> pageCount inp \<and> progress_total p = pageCount inp + 2"
        by simp
    qed
    with sn so show ?thesis by blast
  qed
  show ?thesis
  proof (cases r)
    case (Inr ps')
    with assms have "pagesLoop svc key inp ds 1 ps ts st = (Inr ps', st')" by simp
    then have "\<exists>j us. \<not> j \<le> pageCount inp \<and> ?I j ps' us st'"
      by (rule pagesLoop_Inr_rule [where I = ?I, OF _ init]) (rule step; assumption)
    then obtain j us where "?I j ps' us st'" by blast
    then show ?thesis using weaken [of j st'] by blast
  next
    case (Inl e)
    with assms have "pagesLoop svc key inp ds 1 ps ts st = (Inl e, st')" by simp
    then have "\<exists>j qs us s. j \<le> pageCount inp \<and> ?I j qs us s \<and>
        pageBody svc key inp ds j qs us s = (Inl e, st')"
      by (rule pagesLoop_Inl_rule [where I = ?I, OF _ init]) (rule step; assumption)
    then obtain j qs us s where le: "j \<le> pageCount inp" and inv: "?I j qs us s"
      and pb: "pageBody svc key inp ds j qs us s = (Inl e, st')"
      by blast
    from le have "Suc j \<le> Suc (pageCount inp)" by simp
    from weaken [OF this grow [OF inv pb]] show ?thesis .
  qed
qed

subsection \<open>The whole run\<close>

lemma analyzeReferences_effect:
  assumes "analyzeReferences svc key inp st = (ds, st')"
  shows "\<exists>pre. calls st' = calls st @ pre \<and>
           (\<forall>x\<in>set pre. pageTextFailure x = None \<and> \<not> imageSuccess x \<and> \<not> isStoryTextCall x)"
    and "\<exists>pre. snapshots st' = snapshots st @ pre \<and>
           (\<forall>p\<in>set pre. current p = 0 \<and> progress_total p = pageCount inp + 2)"
    and "onGenerate st' = onGenerate st" and "error st' = error st"
    and "isGenerating st' = isGenerating st"
proof -
  show "\<exists>pre. calls st' = calls st @ pre \<and>
           (\<forall>x\<in>set pre. pageTextFailure x = None \<and> \<not> imageSuccess x \<and> \<not> isStoryTextCall x)"
  proof (cases "baseImages inp = []")
    case True
    with assms show ?thesis by (simp add: analyzeReferences_def)
  next
    case False
    with assms callAnalysis_effect(1) [of svc key inp _ ds st'] show ?thesis
      by (simp add: analyzeReferences_def)
  qed
  show "\<exists>pre. snapshots st' = snapshots st @ pre \<and>
           (\<forall>p\<in>set pre. current p = 0 \<and> progress_total p = pageCount inp + 2)"
  proof (cases "baseImages inp = []")
    case True
    with assms show ?thesis by (simp add: analyzeReferences_def)
  next
    case False
    with assms callAnalysis_effect(2) [of svc key inp _ ds st'] show ?thesis
      by (simp add: analyzeReferences_def)
  qed
  show "onGenerate st' = onGenerate st" "error st' = error st"
    "isGenerating st' = isGenerating st"
    using assms callAnalysis_effect(3-5) [of svc key inp _ ds st']
    by (auto simp: analyzeReferences_def split: if_splits)
qed

lemma generateCover_calls:
  assumes "generateCover svc key inp ds st = (cover, st')"
  shows "\<exists>new. calls st' = calls st @ new \<and>
           (\<forall>x\<in>set new. pageTextFailure x = None \<and> \<not> isStoryTextCall x) \<and>
           ((\<forall>x\<in>set new. \<not> imageSuccess x) \<longrightarrow> cover = None)"
proof -
  obtain r1 st1 where p: "callImagePrompt svc key inp CoverImage (coverStoryText (theme inp)) ds st
      = (r1, st1)"
    by (cases "callImagePrompt svc key inp CoverImage (coverStoryText (theme inp)) ds st")
  note e1 = callImagePrompt_effect [OF p]
  show ?thesis
  proof (cases r1)
    case (Inl e)
    with assms p e1(1) show ?thesis by (simp add: generateCover_def)
  next
    case (Inr coverPrompt)
    obtain r2 st2 where i: "callImage svc key inp CoverImage coverPrompt st1 = (r2, st2)"
      by (cases "callImage svc key inp CoverImage coverPrompt st1")
    from assms p Inr i have st': "st' = st2"
      and cover: "cover = (case r2 of Inl e \<Rightarrow> None | Inr d \<Rightarrow> Some d)"
      by (auto simp: generateCover_def split: sum.splits)
    have "calls st' = calls st @
        [ImagePromptCall CoverImage (coverStoryText (theme inp)) ds r1,
         ImageCall CoverImage coverPrompt r2]"
      using e1(1) callImage_effect(1) [OF i] st' by simp
    then show ?thesis
      using cover Inr by (cases r2) auto
  qed
qed

lemma generateCover_frame:
  assumes "generateCover svc key inp ds st = (cover, st')"
  shows "snapshots st' = snapshots st \<and> onGenerate st' = onGenerate st \<and>
         error st' = error st \<and> isGenerating st' = isGenerating st"
proof -
  obtain r1 st1 where p: "callImagePrompt svc key inp CoverImage (coverStoryText (theme inp)) ds st
      = (r1, st1)"
    by (cases "callImagePrompt svc key inp CoverImage (coverStoryText (theme inp)) ds st")
  note e1 = callImagePrompt_effect [OF p]
  show ?thesis
  proof (cases r1)
    case (Inl e)
    with assms p e1 show ?thesis by (simp add: generateCover_def)
  next
    case (Inr coverPrompt)
    obtain r2 st2 where i: "callImage svc key inp CoverImage coverPrompt st1 = (r2, st2)"
      by (cases "callImage svc key inp CoverImage coverPrompt st1")
    from assms p Inr i have "st' = st2"
      by (auto simp: generateCover_def split: sum.splits)
    with e1 callImage_effect [OF i] show ?thesis by simp
  qed
qed

lemma tryGenerate_cases:
  assumes "tryGenerate svc key inp st = (r, st')"
  obtains
    (failed) ds st1 e where
      "analyzeReferences svc key inp st = (ds, st1)"
      "pagesLoop svc key inp ds 1 [] [] st1 = (Inl e, st')"
      "r = Inl e"
  | (completed) ds st1 ps st2 cover st3 where
      "analyzeReferences svc key inp st = (ds, st1)"
      "pagesLoop svc key inp ds 1 [] [] st1 = (Inr ps, st2)"
      "generateCover svc key inp ds
         (setProgress \<lparr>current = pageCount inp + 1, progress_total = pageCount inp + 2,
                       progress_message = MakingCover\<rparr> st2) = (cover, st3)"
      "r = Inr ()"
      "calls st' = calls st3"
      "snapshots st' = snapshots st3 @
         [\<lparr>current = pageCount inp + 2, progress_total = pageCount inp + 2,
           progress_message = Complete\<rparr>]"
      "onGenerate st' = onGenerate st3 @
         [(theme inp, \<lparr>cover_image = cover, cover_imageScale = 1\<rparr>, ps)]"
      "error st' = error st3" "isGenerating st' = isGenerating st3"
  using assms unfolding tryGenerate_def
  by (auto split: prod.splits sum.splits simp: Let_def)

lemma tryGenerate_Inl:
  assumes "tryGenerate svc key inp st = (Inl e, st')"
  shows "\<exists>ok c. calls st' = calls st @ ok @ [c] \<and>
           (\<forall>x\<in>set ok. pageTextFailure x = None) \<and> pageTextFailure c = Some e"
    and "onGenerate st' = onGenerate st"
  using assms
proof (atomize (full), cases rule: tryGenerate_cases)
  case (failed ds st1 e')
  from analyzeReferences_effect(1) [OF failed(1)] obtain pre where
    pre: "calls st1 = calls st @ pre" "\<forall>x\<in>set pre. pageTextFailure x = None"
    by blast
  from failed(3) have e': "e' = e" by simp
  from pagesLoop_failure [OF failed(2)] obtain ok c where
    ok: "calls st' = calls st1 @ ok @ [c]" "\<forall>x\<in>set ok. pageTextFailure x = None"
      "pageTextFailure c = Some e'"
    by blast
  have "calls st' = calls st @ (pre @ ok) @ [c]" using pre(1) ok(1) by simp
  moreover have "\<forall>x\<in>set (pre @ ok). pageTextFailure x = None" using pre(2) ok(2) by auto
  moreover have "onGenerate st' = onGenerate st"
    using pagesLoop_frame [OF failed(2)] analyzeReferences_effect(3) [OF failed(1)] by simp
  ultimately show "(\<exists>ok c. calls st' = calls st @ ok @ [c] \<and>
           (\<forall>x\<in>set ok. pageTextFailure x = None) \<and> pageTextFailure c = Some e) \<and>
      onGenerate st' = onGenerate st"
    using ok(3) e' by blast
qed simp

lemma tryGenerate_Inr:
  assumes "tryGenerate svc key inp st = (Inr u, st')"
  shows "\<exists>new cover ps.
     calls st' = calls st @ new \<and>
     (\<forall>x\<in>set new. pageTextFailure x = None) \<and>
     onGenerate st' = onGenerate st @
       [(theme inp, \<lparr>cover_image = cover, cover_imageScale = 1\<rparr>, ps)] \<and>
     length ps = pageCount inp \<and>
     filter isStoryTextCall new =
       map (\<lambda>k. StoryTextCall (Suc k) (pageCount inp) (take k (map page_text ps))
                  (Inr (map page_text ps ! k))) [0..<pageCount inp] \<and>
     ((\<forall>x\<in>set new. \<not> imageSuccess x) \<longrightarrow>
        cover = None \<and> (\<forall>q\<in>set ps. page_image q = None))"
  using assms
proof (cases rule: tryGenerate_cases)
  case (completed ds st1 ps st2 cover st3)
  from analyzeReferences_effect(1) [OF completed(1)] obtain pre where
    pre: "calls st1 = calls st @ pre"
      "\<forall>x\<in>set pre. pageTextFailure x = None \<and> \<not> imageSuccess x \<and> \<not> isStoryTextCall x"
    by blast
  from pagesLoop_pages [OF completed(2)] obtain mid where
    len: "length ps = pageCount inp" and
    mid: "calls st2 = calls st1 @ mid" "\<forall>x\<in>set mid. pageTextFailure x = None"
      "filter isStoryTextCall mid =
         map (\<lambda>k. StoryTextCall (Suc k) (pageCount inp) (take k (map page_text ps))
                    (Inr (map page_text ps ! k))) [0..<pageCount inp]"
      "(\<forall>x\<in>set mid. \<not> imageSuccess x) \<longrightarrow> (\<forall>q\<in>set ps. page_image q = None)"
    by blast
  from generateCover_calls [OF completed(3)] obtain fin where
    fin: "calls st3 = calls st2 @ fin"
      "\<forall>x\<in>set fin. pageTextFailure x = None \<and> \<not> isStoryTextCall x"
      "(\<forall>x\<in>set fin. \<not> imageSuccess x) \<longrightarrow> cover = None"
    by simp blast
  let ?new = "pre @ mid @ fin"
  have c: "calls st' = calls st @ ?new"
    using completed(5) pre(1) mid(1) fin(1) by simp
  have nf: "\<forall>x\<in>set ?new. pageTextFailure x = None"
    using pre(2) mid(2) fin(2) by auto
  have "filter isStoryTextCall pre = []" "filter isStoryTextCall fin = []"
    using pre(2) fin(2) by (simp_all add: filter_empty_conv)
  then have fl: "filter isStoryTextCall ?new =
       map (\<lambda>k. StoryTextCall (Suc k) (pageCount inp) (take k (map page_text ps))
                  (Inr (map page_text ps ! k))) [0..<pageCount inp]"
    using mid(3) by simp
  have im: "(\<forall>x\<in>set ?new. \<not> imageSuccess x) \<longrightarrow>
        cover = None \<and> (\<forall>q\<in>set ps. page_image q = None)"
    using mid(4) fin(3) by auto
  have og: "onGenerate st' = onGenerate st @
       [(theme inp, \<lparr>cover_image = cover, cover_imageScale = 1\<rparr>, ps)]"
    using completed(7) generateCover_frame [OF completed(3)]
      pagesLoop_frame [OF completed(2)] analyzeReferences_effect(3) [OF completed(1)]
    by simp
  from c nf og len fl im show ?thesis by blast
qed simp

lemma tryGenerate_frame:
  assumes "tryGenerate svc key inp st = (r, st')"
  shows "error st' = error st \<and> isGenerating st' = isGenerating st"
  using assms
proof (cases rule: tryGenerate_cases)
  case (failed ds st1 e)
  then show ?thesis
    using pagesLoop_frame [OF failed(2)] analyzeReferences_effect(4,5) [OF failed(1)] by simp
next
  case (completed ds st1 ps st2 cover st3)
  then show ?thesis
    using generateCover_frame [OF completed(3)]
      pagesLoop_frame [OF completed(2)] analyzeReferences_effect(4,5) [OF completed(1)]
    by simp
qed

lemma tryGenerate_snapshots:
  assumes "tryGenerate svc key inp st = (r, st')"
  shows "\<exists>new. snapshots st' = snapshots st @ new \<and> sorted (map current new) \<and>
     (\<forall>p\<in>set new. current p \<le> progress_total p \<and> progress_total p = pageCount inp + 2) \<and>
     (r = Inr () \<longrightarrow> new \<noteq> [] \<and>
        last new = \<lparr>current = pageCount inp + 2, progress_total = pageCount inp + 2,
                    progress_message = Complete\<rparr>)"
  using assms
proof (cases rule: tryGenerate_cases)
  case (failed ds st1 e)
  from analyzeReferences_effect(2) [OF failed(1)] obtain pre where
    pre: "snapshots st1 = snapshots st @ pre"
      "\<forall>p\<in>set pre. current p = 0 \<and> progress_total p = pageCount inp + 2"
    by blast
  from pagesLoop_snapshots [OF failed(2)] obtain mid where
    mid: "snapshots st' = snapshots st1 @ mid" "sorted (map current mid)"
      "\<forall>p\<in>set mid. current p \<le> pageCount inp \<and> progress_total p = pageCount inp + 2"
    by blast
  have "sorted (map current pre)"
    using pre(2) by (intro sorted_map_const [where c = 0]) simp
  then have "sorted (map current (pre @ mid))"
    using mid(2) pre(2) by (auto simp: sorted_append)
  moreover have "snapshots st' = snapshots st @ (pre @ mid)"
    using pre(1) mid(1) by simp
  moreover have "\<forall>p\<in>set (pre @ mid).
      current p \<le> progress_total p \<and> progress_total p = pageCount inp + 2"
    using pre(2) mid(3) by auto
  ultimately show ?thesis using failed(3) by blast
next
  case (completed ds st1 ps st2 cover st3)
  from analyzeReferences_effect(2) [OF completed(1)] obtain pre where
    pre: "snapshots st1 = snapshots st @ pre"
      "\<forall>p\<in>set pre. current p = 0 \<and> progress_total p = pageCount inp + 2"
    by blast
  from pagesLoop_snapshots [OF completed(2)] obtain mid where
    mid: "snapshots st2 = snapshots st1 @ mid" "sorted (map current mid)"
      "\<forall>p\<in>set mid. current p \<le> pageCount inp \<and> progress_total p = pageCount inp + 2"
    by blast
  let ?cover = "\<lparr>current = pageCount inp + 1, progress_total = pageCount inp + 2,
                 progress_message = MakingCover\<rparr>"
  let ?done = "\<lparr>current = pageCount inp + 2, progress_total = pageCount inp + 2,
                progress_message = Complete\<rparr>"
  let ?new = "pre @ mid @ [?cover, ?done]"
  have sn: "snapshots st' = snapshots st @ ?new"
    using completed(6) generateCover_frame [OF completed(3)] pre(1) mid(1) by simp
  have "sorted (map current pre)"
    using pre(2) by (intro sorted_map_const [where c = 0]) simp
  then have so: "sorted (map current ?new)"
    using mid(2,3) pre(2) by (auto simp: sorted_append)
  have bd: "\<forall>p\<in>set ?new. current p \<le> progress_total p \<and> progress_total p = pageCount inp + 2"
    using pre(2) mid(3) by auto
  have "?new \<noteq> [] \<and> last ?new = ?done" by simp
  with sn so bd show ?thesis by blast
qed

lemma handleGenerate_cases:
  obtains
    (refused) "apiKey inp = None \<or> apiKey inp = Some [] \<or> isBlank (theme inp)"
      "calls (handleGenerate svc inp st) = calls st"
      "snapshots (handleGenerate svc inp st) = snapshots st"
      "onGenerate (handleGenerate svc inp st) = onGenerate st"
  | (started) key r st' where
      "apiKey inp = Some key" "key \<noteq> []" "\<not> isBlank (theme inp)"
      "tryGenerate svc key inp
         (setProgress \<lparr>current = 0, progress_total = pageCount inp + 2,
                       progress_message = Preparing\<rparr>
            (st\<lparr>isGenerating := True, error := None\<rparr>)) = (r, st')"
      "calls (handleGenerate svc inp st) = calls st'"
      "snapshots (handleGenerate svc inp st) = snapshots st'"
      "onGenerate (handleGenerate svc inp st) = onGenerate st'"
      "isGenerating (handleGenerate svc inp st) = False"
      "error (handleGenerate svc inp st) =
         (case r of Inl err \<Rightarrow> Some (errorText err) | Inr u \<Rightarrow> error st')"
proof (cases "apiKey inp = None \<or> apiKey inp = Some [] \<or> isBlank (theme inp)")
  case True
  then have "calls (handleGenerate svc inp st) = calls st"
    "snapshots (handleGenerate svc inp st) = snapshots st"
    "onGenerate (handleGenerate svc inp st) = onGenerate st"
    by (auto simp: handleGenerate_def split: option.splits)
  with True show ?thesis by (rule refused)
next
  case False
  then obtain key where k: "apiKey inp = Some key" "key \<noteq> []" "\<not> isBlank (theme inp)"
    by auto
  obtain r st' where t: "tryGenerate svc key inp
         (setProgress \<lparr>current = 0, progress_total = pageCount inp + 2,
                       progress_message = Preparing\<rparr>
            (st\<lparr>isGenerating := True, error := None\<rparr>)) = (r, st')"
    by (cases "tryGenerate svc key inp
         (setProgress \<lparr>current = 0, progress_total = pageCount inp + 2,
                       progress_message = Preparing\<rparr>
            (st\<lparr>isGenerating := True, error := None\<rparr>))")
  have "calls (handleGenerate svc inp st) = calls st'"
    "snapshots (handleGenerate svc inp st) = snapshots st'"
    "onGenerate (handleGenerate svc inp st) = onGenerate st'"
    "isGenerating (handleGenerate svc inp st) = False"
    "error (handleGenerate svc inp st) =
       (case r of Inl err \<Rightarrow> Some (errorText err) | Inr u \<Rightarrow> error st')"
    using k t by (auto simp: handleGenerate_def split: sum.splits)
  with k t show ?thesis by (rule started)
qed

text \<open>The two records grow: what a run adds is what it leaves beyond what was there.\<close>

lemma runCalls_eq:
  "calls (handleGenerate svc inp st) = calls st @ new \<Longrightarrow> runCalls svc inp st = new"
  by (simp add: runCalls_def)

lemma runSnapshots_eq:
  "snapshots (handleGenerate svc inp st) = snapshots st @ new \<Longrightarrow> runSnapshots svc inp st = new"
  by (simp add: runSnapshots_def)

text \<open>The three ways a call of \<^verbatim>\<open>handleGenerate\<close> ends.\<close>

lemma handleGenerate_outcome:
  obtains
    (refused) "apiKey inp = None \<or> apiKey inp = Some [] \<or> isBlank (theme inp)"
      "runCalls svc inp st = []"
      "onGenerate (handleGenerate svc inp st) = onGenerate st"
  | (failed) e ok c where
      "runCalls svc inp st = ok @ [c]"
      "\<forall>x\<in>set ok. pageTextFailure x = None" "pageTextFailure c = Some e"
      "error (handleGenerate svc inp st) = Some (errorText e)"
      "onGenerate (handleGenerate svc inp st) = onGenerate st"
      "isGenerating (handleGenerate svc inp st) = False"
  | (completed) key cover ps where
      "apiKey inp = Some key" "key \<noteq> []" "\<not> isBlank (theme inp)"
      "\<forall>x\<in>set (runCalls svc inp st). pageTextFailure x = None"
      "onGenerate (handleGenerate svc inp st) = onGenerate st @
         [(theme inp, \<lparr>cover_image = cover, cover_imageScale = 1\<rparr>, ps)]"
      "length ps = pageCount inp"
      "filter isStoryTextCall (runCalls svc inp st) =
         map (\<lambda>k. StoryTextCall (Suc k) (pageCount inp) (take k (map page_text ps))
                    (Inr (map page_text ps ! k))) [0..<pageCount inp]"
      "(\<forall>x\<in>set (runCalls svc inp st). \<not> imageSuccess x) \<longrightarrow>
         cover = None \<and> (\<forall>q\<in>set ps. page_image q = None)"
      "error (handleGenerate svc inp st) = None"
      "isGenerating (handleGenerate svc inp st) = False"
proof (cases rule: handleGenerate_cases [of inp svc st])
  case refused
  from refused(2) have "runCalls svc inp st = []" by (simp add: runCalls_def)
  from refused(1) this refused(4) show ?thesis by (rule that(1))
next
  case (started key r st')
  let ?st1 = "setProgress \<lparr>current = 0, progress_total = pageCount inp + 2,
                       progress_message = Preparing\<rparr>
            (st\<lparr>isGenerating := True, error := None\<rparr>)"
  have st1: "calls ?st1 = calls st" "onGenerate ?st1 = onGenerate st" "error ?st1 = None"
    by simp_all
  show ?thesis
  proof (cases r)
    case (Inl e)
    with started(4) have t: "tryGenerate svc key inp ?st1 = (Inl e, st')" by simp
    from tryGenerate_Inl(1) [OF t] obtain ok c where
      ok: "calls st' = calls ?st1 @ ok @ [c]" "\<forall>x\<in>set ok. pageTextFailure x = None"
        "pageTextFailure c = Some e"
      by blast
    have "runCalls svc inp st = ok @ [c]"
      using ok(1) started(5) st1(1) by (intro runCalls_eq) simp
    moreover have "onGenerate (handleGenerate svc inp st) = onGenerate st"
      using tryGenerate_Inl(2) [OF t] started(7) st1(2) by simp
    moreover have "error (handleGenerate svc inp st) = Some (errorText e)"
      using started(9) Inl by simp
    ultimately show ?thesis using ok(2,3) started(8) by (intro that(2) [of ok c e])
  next
    case (Inr u)
    with started(4) have t: "tryGenerate svc key inp ?st1 = (Inr u, st')" by simp
    from tryGenerate_Inr [OF t] obtain new cover ps where
      new: "calls st' = calls ?st1 @ new" "\<forall>x\<in>set new. pageTextFailure x = None"
        "onGenerate st' = onGenerate ?st1 @
           [(theme inp, \<lparr>cover_image = cover, cover_imageScale = 1\<rparr>, ps)]"
        "length ps = pageCount inp"
        "filter isStoryTextCall new =
           map (\<lambda>k. StoryTextCall (Suc k) (pageCount inp) (take k (map page_text ps))
                      (Inr (map page_text ps ! k))) [0..<pageCount inp]"
        "(\<forall>x\<in>set new. \<not> imageSuccess x) \<longrightarrow>
           cover = None \<and> (\<forall>q\<in>set ps. page_image q = None)"
      by blast
    have rc: "runCalls svc inp st = new"
      using new(1) started(5) st1(1) by (intro runCalls_eq) simp
    have er: "error (handleGenerate svc inp st) = None"
      using started(9) Inr tryGenerate_frame [OF t] st1(3) by simp
    have og: "onGenerate (handleGenerate svc inp st) = onGenerate st @
         [(theme inp, \<lparr>cover_image = cover, cover_imageScale = 1\<rparr>, ps)]"
      using new(3) started(7) st1(2) by simp
    show ?thesis
      using started(1-3) new(2,4,5,6) og er started(8) unfolding rc [symmetric]
      by (intro that(3) [of key cover ps])
  qed
qed

subsection \<open>Where the outcome of an image request goes\<close>

lemma pagesLoop_images:
  assumes "pagesLoop svc key inp ds 1 [] [] st = (Inr ps', st')"
  shows "\<exists>new. calls st' = calls st @ new \<and>
     (\<forall>t p r. ImageCall t p r \<in> set new \<longrightarrow>
        (\<exists>i. t = PageImage i \<and> 1 \<le> i \<and> i \<le> length ps' \<and>
             page_image (ps' ! (i - 1)) = (case r of Inl x \<Rightarrow> None | Inr d \<Rightarrow> Some d)))"
proof -
  let ?I = "\<lambda>j qs (us :: string list) s.
     j = Suc (length qs) \<and>
     (\<exists>new. calls s = calls st @ new \<and>
        (\<forall>t p r. ImageCall t p r \<in> set new \<longrightarrow>
           (\<exists>i. t = PageImage i \<and> 1 \<le> i \<and> i \<le> length qs \<and>
                page_image (qs ! (i - 1)) = (case r of Inl x \<Rightarrow> None | Inr d \<Rightarrow> Some d))))"
  have init: "?I 1 [] [] st" by simp
  have step: "?I (Suc j) qs' us' s'"
    if inv: "?I j qs us s" and le: "j \<le> pageCount inp"
      and pb: "pageBody svc key inp ds j qs us s = (Inr (qs', us'), s')"
    for j qs us s qs' us' s'
  proof -
    from inv obtain new where j: "j = Suc (length qs)"
      and c: "calls s = calls st @ new"
      and im: "\<And>t p r. ImageCall t p r \<in> set new \<Longrightarrow>
           \<exists>i. t = PageImage i \<and> 1 \<le> i \<and> i \<le> length qs \<and>
                page_image (qs ! (i - 1)) = (case r of Inl x \<Rightarrow> None | Inr d \<Rightarrow> Some d)"
      by blast
    from pageBody_Inr [OF pb] obtain t p ri now where
      c': "calls s' = calls s @
         [StoryTextCall j (pageCount inp) us (Inr t),
          ImagePromptCall (PageImage j) t ds (Inr p),
          ImageCall (PageImage j) p ri]"
      and qs': "qs' = qs @ [\<lparr>page_id = toString now @ digits j,
                   page_image = (case ri of Inl x \<Rightarrow> None | Inr d \<Rightarrow> Some d),
                   page_imageScale = 1, page_text = t\<rparr>]"
      by blast
    let ?new' = "new @ [StoryTextCall j (pageCount inp) us (Inr t),
          ImagePromptCall (PageImage j) t ds (Inr p),
          ImageCall (PageImage j) p ri]"
    have "\<exists>i. t0 = PageImage i \<and> 1 \<le> i \<and> i \<le> length qs' \<and>
             page_image (qs' ! (i - 1)) = (case r0 of Inl x \<Rightarrow> None | Inr d \<Rightarrow> Some d)"
      if m: "ImageCall t0 p0 r0 \<in> set ?new'" for t0 p0 r0
    proof (cases "ImageCall t0 p0 r0 \<in> set new")
      case True
      from im [OF True] obtain i where i: "t0 = PageImage i" "1 \<le> i" "i \<le> length qs"
        "page_image (qs ! (i - 1)) = (case r0 of Inl x \<Rightarrow> None | Inr d \<Rightarrow> Some d)"
        by blast
      from i(2,3) have "i - 1 < length qs" by simp
      then have "qs' ! (i - 1) = qs ! (i - 1)" by (simp add: qs' nth_append)
      with i show ?thesis by (intro exI [of _ i]) (simp add: qs')
    next
      case False
      with m have e: "t0 = PageImage j" "r0 = ri" by auto
      have "qs' ! (j - 1) = \<lparr>page_id = toString now @ digits j,
                   page_image = (case ri of Inl x \<Rightarrow> None | Inr d \<Rightarrow> Some d),
                   page_imageScale = 1, page_text = t\<rparr>"
        using j by (simp add: qs')
      with e j show ?thesis by (intro exI [of _ j]) (simp add: qs')
    qed
    moreover have "calls s' = calls st @ ?new'" using c c' by simp
    moreover have "Suc j = Suc (length qs')" using j by (simp add: qs')
    ultimately show ?thesis by blast
  qed
  have "\<exists>j us. \<not> j \<le> pageCount inp \<and> ?I j ps' us st'"
    by (rule pagesLoop_Inr_rule [where I = ?I, OF assms init]) (rule step; assumption)
  then show ?thesis by blast
qed

lemma generateCover_image:
  assumes "generateCover svc key inp ds st = (cover, st')"
  shows "\<exists>new. calls st' = calls st @ new \<and>
     (\<forall>t p r. ImageCall t p r \<in> set new \<longrightarrow>
        t = CoverImage \<and> cover = (case r of Inl x \<Rightarrow> None | Inr d \<Rightarrow> Some d))"
proof -
  obtain r1 st1 where p: "callImagePrompt svc key inp CoverImage (coverStoryText (theme inp)) ds st
      = (r1, st1)"
    by (cases "callImagePrompt svc key inp CoverImage (coverStoryText (theme inp)) ds st")
  note e1 = callImagePrompt_effect [OF p]
  show ?thesis
  proof (cases r1)
    case (Inl e)
    with assms p e1(1) show ?thesis by (simp add: generateCover_def)
  next
    case (Inr coverPrompt)
    obtain r2 st2 where i: "callImage svc key inp CoverImage coverPrompt st1 = (r2, st2)"
      by (cases "callImage svc key inp CoverImage coverPrompt st1")
    from assms p Inr i have st': "st' = st2"
      and cover: "cover = (case r2 of Inl e \<Rightarrow> None | Inr d \<Rightarrow> Some d)"
      by (auto simp: generateCover_def split: sum.splits)
    have "calls st' = calls st @
        [ImagePromptCall CoverImage (coverStoryText (theme inp)) ds r1,
         ImageCall CoverImage coverPrompt r2]"
      using e1(1) callImage_effect(1) [OF i] st' by simp
    then show ?thesis using cover by simp
  qed
qed

lemma analyzeReferences_calls:
  assumes "analyzeReferences svc key inp st = (ds, st')"
  shows "\<exists>pre. calls st' = calls st @ pre \<and> (\<forall>t p r. ImageCall t p r \<notin> set pre)"
proof (cases "baseImages inp = []")
  case True
  with assms show ?thesis by (simp add: analyzeReferences_def)
next
  case False
  with assms callAnalysis_effect(1) [of svc key inp _ ds st'] show ?thesis
    by (simp add: analyzeReferences_def)
qed

lemma tryGenerate_images:
  assumes "tryGenerate svc key inp st = (Inr u, st')"
  shows "\<exists>new cover ps.
     calls st' = calls st @ new \<and>
     onGenerate st' = onGenerate st @
       [(theme inp, \<lparr>cover_image = cover, cover_imageScale = 1\<rparr>, ps)] \<and>
     (\<forall>t p r. ImageCall t p r \<in> set new \<longrightarrow>
        (\<forall>i. t = PageImage i \<longrightarrow> 1 \<le> i \<and> i \<le> length ps \<and>
           page_image (ps ! (i - 1)) = (case r of Inl x \<Rightarrow> None | Inr d \<Rightarrow> Some d)) \<and>
        (t = CoverImage \<longrightarrow> cover = (case r of Inl x \<Rightarrow> None | Inr d \<Rightarrow> Some d)))"
  using assms
proof (cases rule: tryGenerate_cases)
  case (completed ds st1 ps st2 cover st3)
  from analyzeReferences_calls [OF completed(1)] obtain pre where
    pre: "calls st1 = calls st @ pre" "\<And>t p r. ImageCall t p r \<notin> set pre"
    by blast
  from pagesLoop_images [OF completed(2)] obtain mid where
    mid: "calls st2 = calls st1 @ mid"
      "\<And>t p r. ImageCall t p r \<in> set mid \<Longrightarrow>
        \<exists>i. t = PageImage i \<and> 1 \<le> i \<and> i \<le> length ps \<and>
             page_image (ps ! (i - 1)) = (case r of Inl x \<Rightarrow> None | Inr d \<Rightarrow> Some d)"
    by blast
  from generateCover_image [OF completed(3)] obtain fin where
    fin: "calls st3 = calls st2 @ fin"
      "\<And>t p r. ImageCall t p r \<in> set fin \<Longrightarrow>
        t = CoverImage \<and> cover = (case r of Inl x \<Rightarrow> None | Inr d \<Rightarrow> Some d)"
    by simp blast
  let ?new = "pre @ mid @ fin"
  have c: "calls st' = calls st @ ?new"
    using completed(5) pre(1) mid(1) fin(1) by simp
  have og: "onGenerate st' = onGenerate st @
       [(theme inp, \<lparr>cover_image = cover, cover_imageScale = 1\<rparr>, ps)]"
    using completed(7) generateCover_frame [OF completed(3)]
      pagesLoop_frame [OF completed(2)] analyzeReferences_effect(3) [OF completed(1)]
    by simp
  have im: "(\<forall>i. t = PageImage i \<longrightarrow> 1 \<le> i \<and> i \<le> length ps \<and>
           page_image (ps ! (i - 1)) = (case r of Inl x \<Rightarrow> None | Inr d \<Rightarrow> Some d)) \<and>
        (t = CoverImage \<longrightarrow> cover = (case r of Inl x \<Rightarrow> None | Inr d \<Rightarrow> Some d))"
    if m: "ImageCall t p r \<in> set ?new" for t p r
  proof -
    from m pre(2) have "ImageCall t p r \<in> set mid \<or> ImageCall t p r \<in> set fin" by auto
    then show ?thesis
    proof
      assume "ImageCall t p r \<in> set mid"
      from mid(2) [OF this] show ?thesis by auto
    next
      assume "ImageCall t p r \<in> set fin"
      from fin(2) [OF this] show ?thesis by auto
    qed
  qed
  from c og im show ?thesis by blast
qed simp

text \<open>An image request of a run that raised an error did not end the run. Either the run
  failed later, by a text request of a page, or it completed, and then the page or the
  cover the request was for has no image.\<close>

lemma image_failure_caught:
  assumes "ImageCall t p (Inl e) \<in> set (runCalls svc inp st)"
  shows "(\<exists>ok c e'. runCalls svc inp st = ok @ [c] \<and> ImageCall t p (Inl e) \<in> set ok \<and>
            pageTextFailure c = Some e' \<and>
            error (handleGenerate svc inp st) = Some (errorText e')) \<or>
         (\<exists>cover ps.
            onGenerate (handleGenerate svc inp st) = onGenerate st @ [(theme inp, cover, ps)] \<and>
            error (handleGenerate svc inp st) = None \<and>
            (\<forall>i. t = PageImage i \<longrightarrow>
               1 \<le> i \<and> i \<le> length ps \<and> page_image (ps ! (i - 1)) = None) \<and>
            (t = CoverImage \<longrightarrow> cover_image cover = None))"
proof (cases rule: handleGenerate_cases [of inp svc st])
  case refused
  from refused(2) have "runCalls svc inp st = []" by (simp add: runCalls_def)
  with assms show ?thesis by simp
next
  case (started key r st')
  let ?st1 = "setProgress \<lparr>current = 0, progress_total = pageCount inp + 2,
                       progress_message = Preparing\<rparr>
            (st\<lparr>isGenerating := True, error := None\<rparr>)"
  have st1: "calls ?st1 = calls st" "onGenerate ?st1 = onGenerate st" "error ?st1 = None"
    by simp_all
  show ?thesis
  proof (cases r)
    case (Inl e')
    with started(4) have t: "tryGenerate svc key inp ?st1 = (Inl e', st')" by simp
    from tryGenerate_Inl(1) [OF t] obtain ok c where
      ok: "calls st' = calls ?st1 @ ok @ [c]" "pageTextFailure c = Some e'"
      by blast
    have rc: "runCalls svc inp st = ok @ [c]"
      using ok(1) started(5) st1(1) by (intro runCalls_eq) simp
    from ok(2) have "c \<noteq> ImageCall t p (Inl e)" by auto
    with assms rc have "ImageCall t p (Inl e) \<in> set ok" by simp
    moreover have "error (handleGenerate svc inp st) = Some (errorText e')"
      using started(9) Inl by simp
    ultimately show ?thesis using rc ok(2) by blast
  next
    case (Inr u)
    with started(4) have t: "tryGenerate svc key inp ?st1 = (Inr u, st')" by simp
    from tryGenerate_images [OF t] obtain new cover ps where
      new: "calls st' = calls ?st1 @ new"
        "onGenerate st' = onGenerate ?st1 @
           [(theme inp, \<lparr>cover_image = cover, cover_imageScale = 1\<rparr>, ps)]"
        "\<And>t p r. ImageCall t p r \<in> set new \<Longrightarrow>
          (\<forall>i. t = PageImage i \<longrightarrow> 1 \<le> i \<and> i \<le> length ps \<and>
             page_image (ps ! (i - 1)) = (case r of Inl x \<Rightarrow> None | Inr d \<Rightarrow> Some d)) \<and>
          (t = CoverImage \<longrightarrow> cover = (case r of Inl x \<Rightarrow> None | Inr d \<Rightarrow> Some d))"
      by blast
    have rc: "runCalls svc inp st = new"
      using new(1) started(5) st1(1) by (intro runCalls_eq) simp
    have er: "error (handleGenerate svc inp st) = None"
      using started(9) Inr tryGenerate_frame [OF t] st1(3) by simp
    have og: "onGenerate (handleGenerate svc inp st) = onGenerate st @
         [(theme inp, \<lparr>cover_image = cover, cover_imageScale = 1\<rparr>, ps)]"
      using new(2) started(7) st1(2) by simp
    from assms rc have "ImageCall t p (Inl e) \<in> set new" by simp
    from new(3) [OF this] have
      "(\<forall>i. t = PageImage i \<longrightarrow> 1 \<le> i \<and> i \<le> length ps \<and> page_image (ps ! (i - 1)) = None) \<and>
       (t = CoverImage \<longrightarrow> cover = None)"
      by simp
    with og er show ?thesis
      by (intro disjI2 exI [of _ "\<lparr>cover_image = cover, cover_imageScale = 1\<rparr>"] exI [of _ ps])
         simp
  qed
qed

subsection \<open>Four example runs\<close>

lemmas run_eval =
  handleGenerate_def tryGenerate_def analyzeReferences_def pagesLoop.simps pageBody_def
  generateCover_def callStoryText_def callImagePrompt_def callImage_def readClock_def
  setProgress_def generateStoryText_def generateImagePrompt_def generateImage_def
  modelConfig_def countingServices_def catInputs_def idle_def numbered_def silent_def
  digits.simps toString_def isBlank_def trimStart.simps startsWithSpace_def whiteSpace_def
  errorText_def

text \<open>One page, every text request answered, every image request rejected.\<close>

lemma run_one_page:
  "handleGenerate (countingServices 100 numbered) (catInputs 1) idle =
     \<lparr>world = 5, isGenerating = False, error = None,
      progress = \<lparr>current = 3, progress_total = 3, progress_message = Complete\<rparr>,
      snapshots =
        [\<lparr>current = 0, progress_total = 3, progress_message = Preparing\<rparr>,
         \<lparr>current = 1, progress_total = 3, progress_message = WritingStory 1 1\<rparr>,
         \<lparr>current = 1, progress_total = 3, progress_message = DrawingIllustration 1 1\<rparr>,
         \<lparr>current = 2, progress_total = 3, progress_message = MakingCover\<rparr>,
         \<lparr>current = 3, progress_total = 3, progress_message = Complete\<rparr>],
      calls =
        [StoryTextCall 1 1 [] (Inr ''text 0''),
         ImagePromptCall (PageImage 1) ''text 0'' [] (Inr ''text 1''),
         ImageCall (PageImage 1) ''text 1'' (Inl (ErrorObject ''no image today'')),
         ImagePromptCall CoverImage (coverStoryText ''cat'') [] (Inr ''text 3''),
         ImageCall CoverImage ''text 3'' (Inl (ErrorObject ''no image today''))],
      onGenerate =
        [(''cat'', \<lparr>cover_image = None, cover_imageScale = 1\<rparr>,
          [\<lparr>page_id = ''31'', page_image = None, page_imageScale = 1,
            page_text = ''text 0''\<rparr>])]\<rparr>"
  by (simp add: run_eval)

text \<open>Two pages, the story text request of the second page rejected.\<close>

lemma run_second_page_fails:
  "handleGenerate (countingServices 3 numbered) (catInputs 2) idle =
     \<lparr>world = 4, isGenerating = False, error = Some (Message ''quota exceeded''),
      progress = \<lparr>current = 2, progress_total = 4, progress_message = WritingStory 2 2\<rparr>,
      snapshots =
        [\<lparr>current = 0, progress_total = 4, progress_message = Preparing\<rparr>,
         \<lparr>current = 1, progress_total = 4, progress_message = WritingStory 1 2\<rparr>,
         \<lparr>current = 1, progress_total = 4, progress_message = DrawingIllustration 1 2\<rparr>,
         \<lparr>current = 2, progress_total = 4, progress_message = WritingStory 2 2\<rparr>],
      calls =
        [StoryTextCall 1 2 [] (Inr ''text 0''),
         ImagePromptCall (PageImage 1) ''text 0'' [] (Inr ''text 1''),
         ImageCall (PageImage 1) ''text 1'' (Inl (ErrorObject ''no image today'')),
         StoryTextCall 2 2 [''text 0''] (Inl (ErrorObject ''quota exceeded''))],
      onGenerate = []\<rparr>"
  by (simp add: run_eval)

text \<open>One page, the text model answering every request with the empty text.\<close>

lemma run_empty_text:
  "handleGenerate (countingServices 100 silent) (catInputs 1) idle =
     \<lparr>world = 5, isGenerating = False, error = None,
      progress = \<lparr>current = 3, progress_total = 3, progress_message = Complete\<rparr>,
      snapshots =
        [\<lparr>current = 0, progress_total = 3, progress_message = Preparing\<rparr>,
         \<lparr>current = 1, progress_total = 3, progress_message = WritingStory 1 1\<rparr>,
         \<lparr>current = 1, progress_total = 3, progress_message = DrawingIllustration 1 1\<rparr>,
         \<lparr>current = 2, progress_total = 3, progress_message = MakingCover\<rparr>,
         \<lparr>current = 3, progress_total = 3, progress_message = Complete\<rparr>],
      calls =
        [StoryTextCall 1 1 [] (Inr []),
         ImagePromptCall (PageImage 1) [] [] (Inr []),
         ImageCall (PageImage 1) [] (Inl (ErrorObject ''no image today'')),
         ImagePromptCall CoverImage (coverStoryText ''cat'') [] (Inr []),
         ImageCall CoverImage [] (Inl (ErrorObject ''no image today''))],
      onGenerate =
        [(''cat'', \<lparr>cover_image = None, cover_imageScale = 1\<rparr>,
          [\<lparr>page_id = ''31'', page_image = None, page_imageScale = 1,
            page_text = []\<rparr>])]\<rparr>"
  by (simp add: run_eval)


text \<open>Two pages, every text request answered, every image request rejected.\<close>

lemma run_two_pages:
  "handleGenerate (countingServices 100 numbered) (catInputs 2) idle =
     \<lparr>world = 8, isGenerating = False, error = None,
      progress = \<lparr>current = 4, progress_total = 4, progress_message = Complete\<rparr>,
      snapshots =
        [\<lparr>current = 0, progress_total = 4, progress_message = Preparing\<rparr>,
         \<lparr>current = 1, progress_total = 4, progress_message = WritingStory 1 2\<rparr>,
         \<lparr>current = 1, progress_total = 4, progress_message = DrawingIllustration 1 2\<rparr>,
         \<lparr>current = 2, progress_total = 4, progress_message = WritingStory 2 2\<rparr>,
         \<lparr>current = 2, progress_total = 4, progress_message = DrawingIllustration 2 2\<rparr>,
         \<lparr>current = 3, progress_total = 4, progress_message = MakingCover\<rparr>,
         \<lparr>current = 4, progress_total = 4, progress_message = Complete\<rparr>],
      calls =
        [StoryTextCall 1 2 [] (Inr ''text 0''),
         ImagePromptCall (PageImage 1) ''text 0'' [] (Inr ''text 1''),
         ImageCall (PageImage 1) ''text 1'' (Inl (ErrorObject ''no image today'')),
         StoryTextCall 2 2 [''text 0''] (Inr ''text 3''),
         ImagePromptCall (PageImage 2) ''text 3'' [] (Inr ''text 4''),
         ImageCall (PageImage 2) ''text 4'' (Inl (ErrorObject ''no image today'')),
         ImagePromptCall CoverImage (coverStoryText ''cat'') [] (Inr ''text 6''),
         ImageCall CoverImage ''text 6'' (Inl (ErrorObject ''no image today''))],
      onGenerate =
        [(''cat'', \<lparr>cover_image = None, cover_imageScale = 1\<rparr>,
          [\<lparr>page_id = ''31'', page_image = None, page_imageScale = 1,
            page_text = ''text 0''\<rparr>,
           \<lparr>page_id = ''62'', page_image = None, page_imageScale = 1,
            page_text = ''text 3''\<rparr>])]\<rparr>"
  by (simp add: run_eval)
subsection \<open>Claims about the generation run\<close>

text \<open>
  Claim C1. Take any run of \<^verbatim>\<open>handleGenerate\<close>. If among its requests a text generation
  for a page \<open>i\<close> raised the error \<open>e\<close>, be it the story text of the page or the prompt
  for its illustration, then the whole run failed: the message of \<open>e\<close> is set as the
  error, the completion callback was not called, so no book and no pages, not even the
  pages made so far, reach the caller, and the run is no longer marked as generating.
\<close>

theorem C1_text_failure_is_fatal:
  assumes "c \<in> set (runCalls svc inp st)"
    and "c = StoryTextCall i n previous (Inl e) \<or>
         c = ImagePromptCall (PageImage i) storyText ds (Inl e)"
  shows "error (handleGenerate svc inp st) = Some (errorText e) \<and>
         onGenerate (handleGenerate svc inp st) = onGenerate st \<and>
         isGenerating (handleGenerate svc inp st) = False"
proof -
  from assms(2) have f: "pageTextFailure c = Some e" by auto
  show ?thesis
  proof (cases rule: handleGenerate_outcome [where inp = inp and svc = svc and st = st])
    case refused
    with assms(1) show ?thesis by simp
  next
    case (failed e' ok c')
    from assms(1) failed(1) have "c \<in> set ok \<or> c = c'" by auto
    with failed(2) f have "c = c'" by auto
    with failed(3) f have "e' = e" by simp
    with failed(4-6) show ?thesis by simp
  next
    case (completed key cover ps)
    with assms(1) f show ?thesis by auto
  qed
qed

theorem C1_text_failure_witness:
  "StoryTextCall 2 2 [''text 0''] (Inl (ErrorObject ''quota exceeded''))
     \<in> set (runCalls (countingServices 3 numbered) (catInputs 2) idle) \<and>
   error (handleGenerate (countingServices 3 numbered) (catInputs 2) idle)
     = Some (Message ''quota exceeded'') \<and>
   onGenerate (handleGenerate (countingServices 3 numbered) (catInputs 2) idle) = [] \<and>
   isGenerating (handleGenerate (countingServices 3 numbered) (catInputs 2) idle) = False"
proof -
  have h: "StoryTextCall 2 2 [''text 0''] (Inl (ErrorObject ''quota exceeded''))
     \<in> set (runCalls (countingServices 3 numbered) (catInputs 2) idle)"
    by (simp only: runCalls_def run_second_page_fails) (simp add: idle_def)
  from h C1_text_failure_is_fatal [OF h, of 2 2 "[''text 0'']" "ErrorObject ''quota exceeded''"]
  show ?thesis by (simp only: run_second_page_fails) (simp add: errorText_def idle_def)
qed

text \<open>
  Claim C2. Take a run that starts (an API key is set and the theme is not blank), in
  which no text generation for a page fails and every request for an image fails. The
  run completes: the completion callback is called once, with the theme as title, a
  cover without image and exactly \<open>pageCount\<close> pages, none of which has an image, and no
  error is set.
\<close>

theorem C2_image_failures_are_tolerated:
  assumes "apiKey inp = Some key" and "key \<noteq> []" and "\<not> isBlank (theme inp)"
    and "\<forall>c\<in>set (runCalls svc inp st). pageTextFailure c = None"
    and "\<forall>c\<in>set (runCalls svc inp st). \<not> imageSuccess c"
  shows "\<exists>ps. onGenerate (handleGenerate svc inp st) = onGenerate st @
                 [(theme inp, \<lparr>cover_image = None, cover_imageScale = 1\<rparr>, ps)] \<and>
              length ps = pageCount inp \<and>
              (\<forall>p\<in>set ps. page_image p = None) \<and>
              error (handleGenerate svc inp st) = None \<and>
              isGenerating (handleGenerate svc inp st) = False"
proof (cases rule: handleGenerate_outcome [where inp = inp and svc = svc and st = st])
  case refused
  with assms(1-3) show ?thesis by auto
next
  case (failed e ok c)
  with assms(4) show ?thesis by simp
next
  case (completed key' cover ps)
  from completed(8) assms(5) have "cover = None" and "\<forall>q\<in>set ps. page_image q = None"
    by simp_all
  with completed(5,6,9,10) show ?thesis by blast
qed

theorem C2_image_failures_witness:
  "apiKey (catInputs 1) = Some ''key'' \<and> ''key'' \<noteq> [] \<and> \<not> isBlank (theme (catInputs 1)) \<and>
   map pageTextFailure (runCalls (countingServices 100 numbered) (catInputs 1) idle)
     = [None, None, None, None, None] \<and>
   map imageSuccess (runCalls (countingServices 100 numbered) (catInputs 1) idle)
     = [False, False, False, False, False] \<and>
   (\<exists>ps. onGenerate (handleGenerate (countingServices 100 numbered) (catInputs 1) idle)
            = onGenerate idle @
               [(theme (catInputs 1), \<lparr>cover_image = None, cover_imageScale = 1\<rparr>, ps)] \<and>
          length ps = pageCount (catInputs 1) \<and>
          list_all (\<lambda>p. page_image p = None) ps)"
proof -
  have rc: "runCalls (countingServices 100 numbered) (catInputs 1) idle =
        [StoryTextCall 1 1 [] (Inr ''text 0''),
         ImagePromptCall (PageImage 1) ''text 0'' [] (Inr ''text 1''),
         ImageCall (PageImage 1) ''text 1'' (Inl (ErrorObject ''no image today'')),
         ImagePromptCall CoverImage (coverStoryText ''cat'') [] (Inr ''text 3''),
         ImageCall CoverImage ''text 3'' (Inl (ErrorObject ''no image today''))]"
    by (simp only: runCalls_def run_one_page) (simp add: idle_def)
  have k: "apiKey (catInputs 1) = Some ''key''" "''key'' \<noteq> []"
    by (simp_all add: catInputs_def)
  have b: "\<not> isBlank (theme (catInputs 1))"
    by (simp add: catInputs_def isBlank_def trimStart.simps startsWithSpace_def whiteSpace_def)
  have t: "\<forall>c\<in>set (runCalls (countingServices 100 numbered) (catInputs 1) idle).
      pageTextFailure c = None"
    by (simp only: rc) simp
  have i: "\<forall>c\<in>set (runCalls (countingServices 100 numbered) (catInputs 1) idle).
      \<not> imageSuccess c"
    by (simp only: rc) simp
  from C2_image_failures_are_tolerated [OF k b t i] k b rc
  show ?thesis by (auto simp: list_all_iff)
qed

text \<open>
  Claim C3, as stated, fails in its last part: the code never looks at the text the text
  model returns. When the model answers with the empty text, the run completes and hands
  over a page whose text is empty.
\<close>

theorem C3_counterexample:
  "onGenerate (handleGenerate (countingServices 100 silent) (catInputs 1) idle) =
     [(''cat'', \<lparr>cover_image = None, cover_imageScale = 1\<rparr>,
       [\<lparr>page_id = ''31'', page_image = None, page_imageScale = 1, page_text = []\<rparr>])]"
  by (simp only: run_empty_text) simp

text \<open>
  Claim C3, amended. When a run completes and hands the pages \<open>ps\<close> to the completion
  callback, there are exactly \<open>pageCount\<close> pages, and the story text requests of the run
  are exactly these, in this order: for each page \<open>k + 1\<close>, one request that was given
  the texts of the pages \<open>1\<close> to \<open>k\<close> and nothing else as earlier content, and whose
  answer is the text of page \<open>k + 1\<close>. The text of a page is whatever the text model
  answered; it may be empty.
\<close>

theorem C3_pages_follow_story_requests:
  assumes "onGenerate (handleGenerate svc inp st) = onGenerate st @ [(t, cover, ps)]"
  shows "length ps = pageCount inp \<and>
         filter isStoryTextCall (runCalls svc inp st) =
           map (\<lambda>k. StoryTextCall (Suc k) (pageCount inp) (take k (map page_text ps))
                      (Inr (map page_text ps ! k))) [0..<pageCount inp]"
proof (cases rule: handleGenerate_outcome [where inp = inp and svc = svc and st = st])
  case refused
  with assms show ?thesis by simp
next
  case (failed e ok c)
  with assms show ?thesis by simp
next
  case (completed key cover' ps')
  from assms completed(5) have "ps' = ps" by simp
  with completed(6,7) show ?thesis by simp
qed

theorem C3_pages_witness:
  "onGenerate (handleGenerate (countingServices 100 numbered) (catInputs 2) idle)
     = onGenerate idle @
        [(''cat'', \<lparr>cover_image = None, cover_imageScale = 1\<rparr>,
          [\<lparr>page_id = ''31'', page_image = None, page_imageScale = 1,
            page_text = ''text 0''\<rparr>,
           \<lparr>page_id = ''62'', page_image = None, page_imageScale = 1,
            page_text = ''text 3''\<rparr>])] \<and>
   pageCount (catInputs 2) = 2 \<and>
   filter isStoryTextCall (runCalls (countingServices 100 numbered) (catInputs 2) idle)
     = [StoryTextCall 1 2 [] (Inr ''text 0''),
        StoryTextCall 2 2 [''text 0''] (Inr ''text 3'')]"
proof -
  have h: "onGenerate (handleGenerate (countingServices 100 numbered) (catInputs 2) idle)
     = onGenerate idle @
        [(''cat'', \<lparr>cover_image = None, cover_imageScale = 1\<rparr>,
          [\<lparr>page_id = ''31'', page_image = None, page_imageScale = 1,
            page_text = ''text 0''\<rparr>,
           \<lparr>page_id = ''62'', page_image = None, page_imageScale = 1,
            page_text = ''text 3''\<rparr>])]"
    by (simp only: run_two_pages) (simp add: idle_def)
  have n: "pageCount (catInputs 2) = 2" by (simp add: catInputs_def)
  have u: "[0..<2] = [0, Suc 0]" by (simp add: upt_rec)
  from C3_pages_follow_story_requests [OF h] h n u show ?thesis by simp
qed

text \<open>
  Claim C4. The progress snapshots a run delivers never go down in \<open>current\<close>, each has
  \<open>current\<close> at most \<open>total\<close>, with \<open>total = pageCount + 2\<close>, and when the run completes
  (the completion callback is called) the last snapshot has
  \<open>current = total = pageCount + 2\<close>.
\<close>

theorem C4_progress_is_monotone:
  "snapshots (handleGenerate svc inp st) = snapshots st @ runSnapshots svc inp st \<and>
   sorted (map current (runSnapshots svc inp st)) \<and>
   (\<forall>p\<in>set (runSnapshots svc inp st).
      current p \<le> progress_total p \<and> progress_total p = pageCount inp + 2) \<and>
   (onGenerate (handleGenerate svc inp st) \<noteq> onGenerate st \<longrightarrow>
      runSnapshots svc inp st \<noteq> [] \<and>
      last (runSnapshots svc inp st) =
        \<lparr>current = pageCount inp + 2, progress_total = pageCount inp + 2,
         progress_message = Complete\<rparr>)"
proof (cases rule: handleGenerate_cases [where inp = inp and svc = svc and st = st])
  case refused
  from refused(3) have "runSnapshots svc inp st = []" by (simp add: runSnapshots_def)
  with refused(3,4) show ?thesis by simp
next
  case (started key r st')
  let ?first = "\<lparr>current = 0, progress_total = pageCount inp + 2,
                 progress_message = Preparing\<rparr>"
  let ?st1 = "setProgress ?first (st\<lparr>isGenerating := True, error := None\<rparr>)"
  from tryGenerate_snapshots [OF started(4)] obtain new where
    new: "snapshots st' = snapshots ?st1 @ new" "sorted (map current new)"
      "\<forall>p\<in>set new. current p \<le> progress_total p \<and> progress_total p = pageCount inp + 2"
      "r = Inr () \<longrightarrow> new \<noteq> [] \<and>
         last new = \<lparr>current = pageCount inp + 2, progress_total = pageCount inp + 2,
                     progress_message = Complete\<rparr>"
    by blast
  have sn: "snapshots (handleGenerate svc inp st) = snapshots st @ (?first # new)"
    using started(6) new(1) by simp
  then have rs: "runSnapshots svc inp st = ?first # new" by (rule runSnapshots_eq)
  have so: "sorted (map current (?first # new))" using new(2) by simp
  have bd: "\<forall>p\<in>set (?first # new).
      current p \<le> progress_total p \<and> progress_total p = pageCount inp + 2"
    using new(3) by auto
  have fin: "last (?first # new) =
        \<lparr>current = pageCount inp + 2, progress_total = pageCount inp + 2,
         progress_message = Complete\<rparr>"
    if "onGenerate (handleGenerate svc inp st) \<noteq> onGenerate st"
  proof (cases r)
    case (Inl e)
    with started(4) have "onGenerate st' = onGenerate ?st1"
      by (intro tryGenerate_Inl(2)) simp
    with that started(7) show ?thesis by simp
  next
    case (Inr u)
    with new(4) show ?thesis by simp
  qed
  from fin have fin': "onGenerate (handleGenerate svc inp st) \<noteq> onGenerate st \<longrightarrow>
      ?first # new \<noteq> [] \<and>
      last (?first # new) =
        \<lparr>current = pageCount inp + 2, progress_total = pageCount inp + 2,
         progress_message = Complete\<rparr>"
    by blast
  show ?thesis
    unfolding rs by (intro conjI) (rule sn, rule so, rule bd, rule fin')
qed

theorem C4_progress_witness:
  "runSnapshots (countingServices 100 numbered) (catInputs 1) idle \<noteq> [] \<and>
   map current (runSnapshots (countingServices 100 numbered) (catInputs 1) idle)
     = [0, 1, 1, 2, 3] \<and>
   onGenerate (handleGenerate (countingServices 100 numbered) (catInputs 1) idle)
     \<noteq> onGenerate idle \<and>
   last (runSnapshots (countingServices 100 numbered) (catInputs 1) idle)
     = \<lparr>current = 3, progress_total = 3, progress_message = Complete\<rparr>"
proof -
  have rs: "runSnapshots (countingServices 100 numbered) (catInputs 1) idle =
        [\<lparr>current = 0, progress_total = 3, progress_message = Preparing\<rparr>,
         \<lparr>current = 1, progress_total = 3, progress_message = WritingStory 1 1\<rparr>,
         \<lparr>current = 1, progress_total = 3, progress_message = DrawingIllustration 1 1\<rparr>,
         \<lparr>current = 2, progress_total = 3, progress_message = MakingCover\<rparr>,
         \<lparr>current = 3, progress_total = 3, progress_message = Complete\<rparr>]"
    by (simp only: runSnapshots_def run_one_page) (simp add: idle_def)
  have og: "onGenerate (handleGenerate (countingServices 100 numbered) (catInputs 1) idle)
     \<noteq> onGenerate idle"
    by (simp only: run_one_page) (simp add: idle_def)
  have n: "pageCount (catInputs 1) = 1" by (simp add: catInputs_def)
  from C4_progress_is_monotone [of "countingServices 100 numbered" "catInputs 1" idle] og n
  have "last (runSnapshots (countingServices 100 numbered) (catInputs 1) idle)
     = \<lparr>current = 3, progress_total = 3, progress_message = Complete\<rparr>"
    by simp
  with rs og show ?thesis by simp
qed

subsection \<open>Claim about the image generation of the client\<close>

text \<open>
  Claim C5, as stated, fails: \<^verbatim>\<open>generateImage\<close> never returns null. An answer of the
  image model without any candidate makes it raise the error "image data not found", and
  a rejected request makes it raise the error of the model.
\<close>

theorem C5_counterexample:
  "generateImage (paintingServices noCandidates) ''key'' ''a cat'' ''gemini-2.5-flash-image'' 0
     = (Inl (ErrorObject imageDataNotFound), 1) \<and>
   generateImage (countingServices 100 numbered) ''key'' ''a cat'' ''gemini-2.5-flash-image'' 0
     = (Inl (ErrorObject ''no image today''), 1)"
  by (simp add: generateImage_def paintingServices_def countingServices_def noCandidates_def
      responseParts_def)

text \<open>
  Claim C5, amended. For every prompt and model identifier \<^verbatim>\<open>generateImage\<close> either
  returns a string, the data URL made of the mime type and the payload of the first part
  with inline data, or raises an error: the error of the image model when the request is
  rejected, and the error "image data not found" when the answer holds no part with
  inline data. It never returns null. The caller \<^verbatim>\<open>handleGenerate\<close> catches the error:
  a request to \<^verbatim>\<open>generateImage\<close> that raised does not end the run. Either the run
  fails later, by a text request of a page, or it completes, and then the page or the
  cover the request was for is handed over with \<^verbatim>\<open>image\<close> null.
\<close>

theorem C5_generateImage_returns_or_raises:
  "(imageService svc key (modelConfig modelName p) w = (Inl e, w') \<longrightarrow>
      generateImage svc key p modelName w = (Inl e, w')) \<and>
   (imageService svc key (modelConfig modelName p) w = (Inr r, w') \<and>
    (responseParts r = None \<or> (\<exists>ps. responseParts r = Some ps \<and> firstInlineData ps = None)) \<longrightarrow>
      generateImage svc key p modelName w = (Inl (ErrorObject imageDataNotFound), w')) \<and>
   (imageService svc key (modelConfig modelName p) w = (Inr r, w') \<and>
    responseParts r = Some ps \<and> firstInlineData ps = Some d \<longrightarrow>
      generateImage svc key p modelName w = (Inr (dataUrl d), w') \<and>
      (\<exists>mimeType payload. mimeType \<noteq> [] \<and>
         dataUrl d = ''data:'' @ mimeType @ '';base64,'' @ payload)) \<and>
   (ImageCall t q (Inl x) \<in> set (runCalls svc inp st) \<longrightarrow>
      (\<exists>ok c e'. runCalls svc inp st = ok @ [c] \<and> ImageCall t q (Inl x) \<in> set ok \<and>
         pageTextFailure c = Some e' \<and>
         error (handleGenerate svc inp st) = Some (errorText e')) \<or>
      (\<exists>cover ps.
         onGenerate (handleGenerate svc inp st) = onGenerate st @ [(theme inp, cover, ps)] \<and>
         error (handleGenerate svc inp st) = None \<and>
         (\<forall>i. t = PageImage i \<longrightarrow>
            1 \<le> i \<and> i \<le> length ps \<and> page_image (ps ! (i - 1)) = None) \<and>
         (t = CoverImage \<longrightarrow> cover_image cover = None)))"
proof (intro conjI impI)
  assume "imageService svc key (modelConfig modelName p) w = (Inl e, w')"
  then show "generateImage svc key p modelName w = (Inl e, w')"
    by (simp add: generateImage_def)
next
  assume "imageService svc key (modelConfig modelName p) w = (Inr r, w') \<and>
    (responseParts r = None \<or> (\<exists>ps. responseParts r = Some ps \<and> firstInlineData ps = None))"
  then show "generateImage svc key p modelName w = (Inl (ErrorObject imageDataNotFound), w')"
    by (auto simp: generateImage_def)
next
  assume h: "imageService svc key (modelConfig modelName p) w = (Inr r, w') \<and>
    responseParts r = Some ps \<and> firstInlineData ps = Some d"
  then show "generateImage svc key p modelName w = (Inr (dataUrl d), w')"
    by (simp add: generateImage_def)
  show "\<exists>mimeType payload. mimeType \<noteq> [] \<and>
         dataUrl d = ''data:'' @ mimeType @ '';base64,'' @ payload"
  proof (cases "inline_mimeType d = None \<or> inline_mimeType d = Some []")
    case True
    then have "dataUrl d = ''data:'' @ ''image/png'' @ '';base64,'' @
        (case inline_data d of None \<Rightarrow> ''undefined'' | Some b \<Rightarrow> b)"
      by (auto simp: dataUrl_def)
    then show ?thesis by (intro exI [of _ "''image/png''"] exI conjI) simp_all
  next
    case False
    then obtain m where m: "inline_mimeType d = Some m" "m \<noteq> []" by auto
    then have "dataUrl d = ''data:'' @ m @ '';base64,'' @
        (case inline_data d of None \<Rightarrow> ''undefined'' | Some b \<Rightarrow> b)"
      by (simp add: dataUrl_def)
    with m(2) show ?thesis by blast
  qed
next
  assume "ImageCall t q (Inl x) \<in> set (runCalls svc inp st)"
  then show "(\<exists>ok c e'. runCalls svc inp st = ok @ [c] \<and> ImageCall t q (Inl x) \<in> set ok \<and>
         pageTextFailure c = Some e' \<and>
         error (handleGenerate svc inp st) = Some (errorText e')) \<or>
      (\<exists>cover ps.
         onGenerate (handleGenerate svc inp st) = onGenerate st @ [(theme inp, cover, ps)] \<and>
         error (handleGenerate svc inp st) = None \<and>
         (\<forall>i. t = PageImage i \<longrightarrow>
            1 \<le> i \<and> i \<le> length ps \<and> page_image (ps ! (i - 1)) = None) \<and>
         (t = CoverImage \<longrightarrow> cover_image cover = None))"
    by (rule image_failure_caught)
qed

theorem C5_generateImage_witness:
  "imageService (countingServices 100 numbered) ''key''
       (modelConfig ''gemini-2.5-flash-image'' ''a cat'') 0
     = (Inl (ErrorObject ''no image today''), 1) \<and>
   generateImage (countingServices 100 numbered) ''key'' ''a cat'' ''gemini-2.5-flash-image'' 0
     = (Inl (ErrorObject ''no image today''), 1) \<and>
   imageService (paintingServices noCandidates) ''key''
       (modelConfig ''gemini-2.5-flash-image'' ''a cat'') 0
     = (Inr noCandidates, 1) \<and>
   responseParts noCandidates = None \<and>
   generateImage (paintingServices noCandidates) ''key'' ''a cat'' ''gemini-2.5-flash-image'' 0
     = (Inl (ErrorObject imageDataNotFound), 1) \<and>
   imageService (paintingServices onePicture) ''key''
       (modelConfig ''gemini-2.5-flash-image'' ''a cat'') 0
     = (Inr onePicture, 1) \<and>
   responseParts onePicture = Some [\<lparr>part_inlineData = None\<rparr>, pngPart] \<and>
   firstInlineData [\<lparr>part_inlineData = None\<rparr>, pngPart]
     = Some \<lparr>inline_data = Some ''iVBOR'', inline_mimeType = None\<rparr> \<and>
   generateImage (paintingServices onePicture) ''key'' ''a cat'' ''gemini-2.5-flash-image'' 0
     = (Inr ''data:image/png;base64,iVBOR'', 1) \<and>
   ImageCall (PageImage 2) ''text 4'' (Inl (ErrorObject ''no image today''))
     \<in> set (runCalls (countingServices 100 numbered) (catInputs 2) idle) \<and>
   ImageCall CoverImage ''text 6'' (Inl (ErrorObject ''no image today''))
     \<in> set (runCalls (countingServices 100 numbered) (catInputs 2) idle) \<and>
   onGenerate (handleGenerate (countingServices 100 numbered) (catInputs 2) idle)
     = [(''cat'', \<lparr>cover_image = None, cover_imageScale = 1\<rparr>,
         [\<lparr>page_id = ''31'', page_image = None, page_imageScale = 1,
           page_text = ''text 0''\<rparr>,
          \<lparr>page_id = ''62'', page_image = None, page_imageScale = 1,
           page_text = ''text 3''\<rparr>])] \<and>
   error (handleGenerate (countingServices 100 numbered) (catInputs 2) idle) = None \<and>
   ImageCall (PageImage 1) ''text 1'' (Inl (ErrorObject ''no image today''))
     \<in> set (runCalls (countingServices 3 numbered) (catInputs 2) idle) \<and>
   runCalls (countingServices 3 numbered) (catInputs 2) idle
     = [StoryTextCall 1 2 [] (Inr ''text 0''),
        ImagePromptCall (PageImage 1) ''text 0'' [] (Inr ''text 1''),
        ImageCall (PageImage 1) ''text 1'' (Inl (ErrorObject ''no image today''))] @
       [StoryTextCall 2 2 [''text 0''] (Inl (ErrorObject ''quota exceeded''))] \<and>
   error (handleGenerate (countingServices 3 numbered) (catInputs 2) idle)
     = Some (Message ''quota exceeded'')"
proof -
  have r2: "runCalls (countingServices 100 numbered) (catInputs 2) idle =
        [StoryTextCall 1 2 [] (Inr ''text 0''),
         ImagePromptCall (PageImage 1) ''text 0'' [] (Inr ''text 1''),
         ImageCall (PageImage 1) ''text 1'' (Inl (ErrorObject ''no image today'')),
         StoryTextCall 2 2 [''text 0''] (Inr ''text 3''),
         ImagePromptCall (PageImage 2) ''text 3'' [] (Inr ''text 4''),
         ImageCall (PageImage 2) ''text 4'' (Inl (ErrorObject ''no image today'')),
         ImagePromptCall CoverImage (coverStoryText ''cat'') [] (Inr ''text 6''),
         ImageCall CoverImage ''text 6'' (Inl (ErrorObject ''no image today''))]"
    unfolding runCalls_def by (simp only: run_two_pages) (simp add: idle_def)
  have m1: "ImageCall (PageImage 2) ''text 4'' (Inl (ErrorObject ''no image today''))
     \<in> set (runCalls (countingServices 100 numbered) (catInputs 2) idle)"
    by (simp only: r2) simp
  have m2: "ImageCall CoverImage ''text 6'' (Inl (ErrorObject ''no image today''))
     \<in> set (runCalls (countingServices 100 numbered) (catInputs 2) idle)"
    by (simp only: r2) simp
  have o2: "onGenerate (handleGenerate (countingServices 100 numbered) (catInputs 2) idle)
     = [(''cat'', \<lparr>cover_image = None, cover_imageScale = 1\<rparr>,
         [\<lparr>page_id = ''31'', page_image = None, page_imageScale = 1,
           page_text = ''text 0''\<rparr>,
          \<lparr>page_id = ''62'', page_image = None, page_imageScale = 1,
           page_text = ''text 3''\<rparr>])]"
    by (simp only: run_two_pages) simp
  have e2: "error (handleGenerate (countingServices 100 numbered) (catInputs 2) idle) = None"
    by (simp only: run_two_pages) simp
  have r3: "runCalls (countingServices 3 numbered) (catInputs 2) idle
     = [StoryTextCall 1 2 [] (Inr ''text 0''),
        ImagePromptCall (PageImage 1) ''text 0'' [] (Inr ''text 1''),
        ImageCall (PageImage 1) ''text 1'' (Inl (ErrorObject ''no image today''))] @
       [StoryTextCall 2 2 [''text 0''] (Inl (ErrorObject ''quota exceeded''))]"
    unfolding runCalls_def by (simp only: run_second_page_fails) (simp add: idle_def)
  have m3: "ImageCall (PageImage 1) ''text 1'' (Inl (ErrorObject ''no image today''))
     \<in> set (runCalls (countingServices 3 numbered) (catInputs 2) idle)"
    by (simp only: r3) simp
  have e3: "error (handleGenerate (countingServices 3 numbered) (catInputs 2) idle)
     = Some (Message ''quota exceeded'')"
    by (simp only: run_second_page_fails) simp
  have a: "imageService (countingServices 100 numbered) ''key''
       (modelConfig ''gemini-2.5-flash-image'' ''a cat'') 0
     = (Inl (ErrorObject ''no image today''), 1)"
    by (simp add: countingServices_def)
  have b: "imageService (paintingServices noCandidates) ''key''
       (modelConfig ''gemini-2.5-flash-image'' ''a cat'') 0
     = (Inr noCandidates, 1) \<and>
     (responseParts noCandidates = None \<or>
      (\<exists>ps. responseParts noCandidates = Some ps \<and> firstInlineData ps = None))"
    by (simp add: paintingServices_def noCandidates_def responseParts_def)
  have c: "imageService (paintingServices onePicture) ''key''
       (modelConfig ''gemini-2.5-flash-image'' ''a cat'') 0
     = (Inr onePicture, 1) \<and>
     responseParts onePicture = Some [\<lparr>part_inlineData = None\<rparr>, pngPart] \<and>
     firstInlineData [\<lparr>part_inlineData = None\<rparr>, pngPart]
       = Some \<lparr>inline_data = Some ''iVBOR'', inline_mimeType = None\<rparr>"
    by (simp add: paintingServices_def onePicture_def responseParts_def pngPart_def)
  have n: "responseParts noCandidates = None"
    by (simp add: noCandidates_def responseParts_def)
  have u: "dataUrl \<lparr>inline_data = Some ''iVBOR'', inline_mimeType = None\<rparr>
      = ''data:image/png;base64,iVBOR''"
    by (simp add: dataUrl_def)
  from C5_generateImage_returns_or_raises
         [where svc = "countingServices 100 numbered" and key = "''key''"
            and modelName = "''gemini-2.5-flash-image''" and p = "''a cat''" and w = 0
            and e = "ErrorObject ''no image today''" and w' = 1]
       C5_generateImage_returns_or_raises
         [where svc = "paintingServices noCandidates" and key = "''key''"
            and modelName = "''gemini-2.5-flash-image''" and p = "''a cat''" and w = 0
            and r = noCandidates and w' = 1]
       C5_generateImage_returns_or_raises
         [where svc = "paintingServices onePicture" and key = "''key''"
            and modelName = "''gemini-2.5-flash-image''" and p = "''a cat''" and w = 0
            and r = onePicture and w' = 1
            and ps = "[\<lparr>part_inlineData = None\<rparr>, pngPart]"
            and d = "\<lparr>inline_data = Some ''iVBOR'', inline_mimeType = None\<rparr>"]
       a b c n u
  have first: "imageService (countingServices 100 numbered) ''key''
       (modelConfig ''gemini-2.5-flash-image'' ''a cat'') 0
     = (Inl (ErrorObject ''no image today''), 1) \<and>
   generateImage (countingServices 100 numbered) ''key'' ''a cat'' ''gemini-2.5-flash-image'' 0
     = (Inl (ErrorObject ''no image today''), 1) \<and>
   imageService (paintingServices noCandidates) ''key''
       (modelConfig ''gemini-2.5-flash-image'' ''a cat'') 0
     = (Inr noCandidates, 1) \<and>
   responseParts noCandidates = None \<and>
   generateImage (paintingServices noCandidates) ''key'' ''a cat'' ''gemini-2.5-flash-image'' 0
     = (Inl (ErrorObject imageDataNotFound), 1) \<and>
   imageService (paintingServices onePicture) ''key''
       (modelConfig ''gemini-2.5-flash-image'' ''a cat'') 0
     = (Inr onePicture, 1) \<and>
   responseParts onePicture = Some [\<lparr>part_inlineData = None\<rparr>, pngPart] \<and>
   firstInlineData [\<lparr>part_inlineData = None\<rparr>, pngPart]
     = Some \<lparr>inline_data = Some ''iVBOR'', inline_mimeType = None\<rparr> \<and>
   generateImage (paintingServices onePicture) ''key'' ''a cat'' ''gemini-2.5-flash-image'' 0
     = (Inr ''data:image/png;base64,iVBOR'', 1)"
    by simp
  from C5_generateImage_returns_or_raises
         [where svc = "countingServices 100 numbered" and inp = "catInputs 2" and st = idle
            and t = "PageImage 2" and q = "''text 4''"
            and x = "ErrorObject ''no image today''"]
       m1 m2 o2 e2 m3 r3 e3 first
  show ?thesis by blast
qed

subsection \<open>Claim about the ids of the collection\<close>

lemma bookId_newBook: "bookId (newBook now t cover ps) = Some (JStr (toString now))"
  by (simp add: newBook_def bookId_def)

lemma bookId_updatedBook:
  assumes "bookId book = Some (JStr c)"
  shows "bookId (updatedBook now t cover ps book) = bookId book"
proof -
  from assms obtain kvs where "book = JObj kvs"
    by (cases book) (simp_all add: bookId_def)
  then show ?thesis
    by (simp add: updatedBook_def bookId_def update_conv')
qed

lemma bookId_updatedBooks:
  "map bookId (map (\<lambda>book. if bookId book = Some (JStr c)
                                then updatedBook now t cover ps book else book) bs)
     = map bookId bs"
  by (induction bs) (simp_all add: bookId_updatedBook)

text \<open>What is shown and what is stored after a collection with unique string ids was
  saved.\<close>

lemma uniqueShelf_saved:
  assumes "uniqueIds bs" and "stringIds bs" and "uniqueIds (loadBooks st)"
    and "books st' = bs"
    and "storage st' = (if writable then Some (stringify (JArr bs)) else storage st)"
  shows "uniqueShelf st' \<and> stringIds (books st')"
proof -
  from assms(5) have "loadBooks st' =
      (if writable then map (\<lambda>b. jsonParse (stringify b)) bs else loadBooks st)"
    by (simp add: loadBooks_def comp_def)
  then have "map bookId (loadBooks st') =
      (if writable then map bookId (map (\<lambda>b. jsonParse (stringify b)) bs)
       else map bookId (loadBooks st))"
    by simp
  then have "map bookId (loadBooks st') =
      (if writable then map bookId bs else map bookId (loadBooks st))"
    by (simp only: stringIds_jsonParse_stringify [OF assms(2)])
  with assms(1-4) show ?thesis
    by (simp add: uniqueShelf_def uniqueIds_def)
qed

lemma stringIds_valid: "list_all validateBook bs \<Longrightarrow> stringIds bs"
proof -
  assume v: "list_all validateBook bs"
  have "typeof (bookId b) = ''string''" if "validateBook b" for b
    using validateBook_id [OF that] by auto
  with v show ?thesis by (auto simp: stringIds_def list_all_iff)
qed

lemma stringIds_withId: "typeof (bookId (withId b s)) = ''string''"
  by (simp add: bookId_withId)

lemma stringIds_mergeBooks:
  "stringIds bs \<Longrightarrow> stringIds (mergeBooks ids env k bs)"
  by (induction bs arbitrary: k) (simp_all add: stringIds_def stringIds_withId)

lemma mergeBooks_ids:
  "set (map bookId (mergeBooks ids env k bs)) \<subseteq>
     (set (map bookId bs) - set ids) \<union>
     (\<lambda>j. Some (JStr (newId (env j)))) ` {k..<k + length bs}"
proof (induction bs arbitrary: k)
  case Nil
  then show ?case by simp
next
  case (Cons b bs)
  have sub: "{Suc k..<Suc k + length bs} \<subseteq> {k..<k + length (b # bs)}"
    "{k..<k + length bs} \<subseteq> {k..<k + length (b # bs)}" by auto
  show ?case
  proof (cases "bookId b \<in> set ids")
    case True
    have "k \<in> {k..<k + length (b # bs)}" by simp
    with True Cons.IH [of "Suc k"] sub(1) show ?thesis
      by (auto simp: bookId_withId)
  next
    case False
    with Cons.IH [of k] sub(2) show ?thesis by auto
  qed
qed

lemma mergeBooks_distinct:
  assumes "distinct (map bookId bs)"
    and "distinct (map (\<lambda>j. newId (env j)) [k..<k + length bs])"
    and "\<forall>j\<in>{k..<k + length bs}. Some (JStr (newId (env j))) \<notin> set (map bookId bs)"
  shows "distinct (map bookId (mergeBooks ids env k bs))"
  using assms
proof (induction bs arbitrary: k)
  case Nil
  then show ?case by simp
next
  case (Cons b bs)
  let ?F = "\<lambda>j. Some (JStr (newId (env j)))"
  have up: "[k..<k + length (b # bs)] = k # [Suc k..<Suc k + length bs]"
    by (subst upt_conv_Cons) simp_all
  have pre: "[k..<k + length (b # bs)] = [k..<k + length bs] @ [k + length bs]"
    by simp
  from Cons.prems(1) have db: "bookId b \<notin> set (map bookId bs)" and dbs: "distinct (map bookId bs)"
    by simp_all
  show ?case
  proof (cases "bookId b \<in> set ids")
    case True
    from Cons.prems(2) have d': "distinct (map (\<lambda>j. newId (env j)) [Suc k..<Suc k + length bs])"
      and fresh: "newId (env k) \<notin> (\<lambda>j. newId (env j)) ` {Suc k..<Suc k + length bs}"
      unfolding up by auto
    from Cons.prems(3) have n': "\<forall>j\<in>{Suc k..<Suc k + length bs}. ?F j \<notin> set (map bookId bs)"
      and nk: "?F k \<notin> set (map bookId bs)"
      by auto
    have tl: "distinct (map bookId (mergeBooks ids env (Suc k) bs))"
      by (rule Cons.IH [OF dbs d' n'])
    have "?F k \<notin> set (map bookId (mergeBooks ids env (Suc k) bs))"
    proof
      assume "?F k \<in> set (map bookId (mergeBooks ids env (Suc k) bs))"
      with mergeBooks_ids [of ids env "Suc k" bs]
      have "?F k \<in> set (map bookId bs) \<or> ?F k \<in> ?F ` {Suc k..<Suc k + length bs}"
        by auto
      with nk fresh show False by auto
    qed
    with tl True show ?thesis by (simp add: bookId_withId)
  next
    case False
    from Cons.prems(2) have d': "distinct (map (\<lambda>j. newId (env j)) [k..<k + length bs])"
      unfolding pre by simp
    from Cons.prems(3) have n': "\<forall>j\<in>{k..<k + length bs}. ?F j \<notin> set (map bookId bs)"
      and nb: "\<forall>j\<in>{k..<k + length bs}. ?F j \<noteq> bookId b"
      by auto
    have tl: "distinct (map bookId (mergeBooks ids env k bs))"
      by (rule Cons.IH [OF dbs d' n'])
    have "bookId b \<notin> set (map bookId (mergeBooks ids env k bs))"
    proof
      assume "bookId b \<in> set (map bookId (mergeBooks ids env k bs))"
      with mergeBooks_ids [of ids env k bs]
      have "bookId b \<in> set (map bookId bs) \<or> bookId b \<in> ?F ` {k..<k + length bs}"
        by auto
      with db nb show False by auto
    qed
    with tl False show ?thesis by simp
  qed
qed

lemma mergeBooks_unique:
  assumes "uniqueIds existing" and "distinct (map bookId bs)"
    and "distinct (map (\<lambda>j. newId (env j)) [0..<length bs])"
    and "\<forall>j<length bs. Some (JStr (newId (env j))) \<notin> set (map bookId existing) \<and>
           Some (JStr (newId (env j))) \<notin> set (map bookId bs)"
  shows "uniqueIds (existing @ mergeBooks (existingIds existing) env 0 bs)"
proof -
  let ?m = "mergeBooks (existingIds existing) env 0 bs"
  have d: "distinct (map bookId ?m)"
    using assms(2-4) by (intro mergeBooks_distinct) auto
  have "set (map bookId ?m) \<inter> set (map bookId existing) = {}"
  proof (rule ccontr)
    assume "set (map bookId ?m) \<inter> set (map bookId existing) \<noteq> {}"
    then obtain i where m: "i \<in> set (map bookId ?m)" and e: "i \<in> set (map bookId existing)"
      by blast
    from m mergeBooks_ids [of "existingIds existing" env 0 bs]
    have "i \<in> set (map bookId bs) - set (existingIds existing) \<or>
          i \<in> (\<lambda>j. Some (JStr (newId (env j)))) ` {0..<0 + length bs}"
      by blast
    then show False
    proof
      assume "i \<in> set (map bookId bs) - set (existingIds existing)"
      with e show False by (simp add: existingIds_def)
    next
      assume "i \<in> (\<lambda>j. Some (JStr (newId (env j)))) ` {0..<0 + length bs}"
      then obtain j where "j < length bs" "i = Some (JStr (newId (env j)))" by auto
      with assms(4) e show False by blast
    qed
  qed
  with d assms(1) show ?thesis
    by (auto simp: uniqueIds_def)
qed

lemma newBook_saved:
  assumes "uniqueShelf st" and "stringIds (books st)"
    and "Some (JStr (toString now)) \<notin> set (map bookId (books st))"
    and "books st' = newBook now t cover ps # books st"
    and "storage st' = (if writable then Some (stringify (JArr (newBook now t cover ps # books st)))
                        else storage st)"
  shows "uniqueShelf st' \<and> stringIds (books st')"
proof (rule uniqueShelf_saved [OF _ _ _ assms(4,5)])
  show "uniqueIds (newBook now t cover ps # books st)"
    using assms(1,3) by (simp add: uniqueShelf_def uniqueIds_def bookId_newBook)
  show "stringIds (newBook now t cover ps # books st)"
    using assms(2) by (simp add: stringIds_def bookId_newBook)
  show "uniqueIds (loadBooks st)"
    using assms(1) by (simp add: uniqueShelf_def)
qed

lemma handleSaveBook_new:
  assumes "uniqueShelf st" and "stringIds (books st)"
    and "currentBookId st = None \<or> currentBookId st = Some []"
    and "Some (JStr (toString now)) \<notin> set (map bookId (books st))"
  shows "uniqueShelf (handleSaveBook now writable st) \<and>
         stringIds (books (handleSaveBook now writable st))"
  using assms(3)
  by (intro newBook_saved [OF assms(1,2,4), where writable = writable and t = "title st"
        and cover = "coverData st" and ps = "pages st"])
     (auto simp: handleSaveBook_def saveBooks_def Let_def)

lemma handleFinish_new:
  assumes "uniqueShelf st" and "stringIds (books st)"
    and "currentBookId st = None \<or> currentBookId st = Some []"
    and "Some (JStr (toString now)) \<notin> set (map bookId (books st))"
  shows "uniqueShelf (handleFinish now writable st) \<and>
         stringIds (books (handleFinish now writable st))"
proof (cases "length (pages st) > 0")
  case True
  with assms(3) show ?thesis
    by (intro newBook_saved [OF assms(1,2,4), where writable = writable and t = "title st"
          and cover = "coverData st" and ps = "pages st"])
       (auto simp: handleFinish_def saveBooks_def Let_def)
next
  case False
  with assms(3) have "handleFinish now writable st = st\<lparr>mode := View\<rparr>"
    by (auto simp: handleFinish_def)
  with assms(1,2) show ?thesis
    by (simp add: uniqueShelf_def loadBooks_def)
qed

lemma handleAIGenerateComplete_new:
  assumes "uniqueShelf st" and "stringIds (books st)"
    and "Some (JStr (toString now)) \<notin> set (map bookId (books st))"
  shows "uniqueShelf (handleAIGenerateComplete now writable t cover ps st) \<and>
         stringIds (books (handleAIGenerateComplete now writable t cover ps st))"
  by (intro newBook_saved [OF assms(1,2,3), where writable = writable and t = t
        and cover = "coverJson cover" and ps = "map pageJson ps"])
     (auto simp: handleAIGenerateComplete_def saveBooks_def Let_def)

lemma updated_saved:
  assumes "uniqueShelf st" and "stringIds (books st)"
    and "books st' = map (\<lambda>book. if bookId book = Some (JStr c)
                                     then updatedBook now t cover ps book else book) (books st)"
    and "storage st' = (if writable then Some (stringify (JArr (books st'))) else storage st)"
  shows "uniqueShelf st' \<and> stringIds (books st')"
proof -
  have ids: "map bookId (books st') = map bookId (books st)"
    by (simp only: assms(3) bookId_updatedBooks)
  have "stringIds bs = list_all (\<lambda>i. typeof i = ''string'') (map bookId bs)" for bs
    by (simp add: stringIds_def list_all_iff)
  with ids assms(2) have s: "stringIds (books st')" by simp
  from ids assms(1) have u: "uniqueIds (books st')"
    by (simp add: uniqueShelf_def uniqueIds_def)
  from assms(1) have l: "uniqueIds (loadBooks st)" by (simp add: uniqueShelf_def)
  show ?thesis
    by (rule uniqueShelf_saved [OF u s l refl assms(4)])
qed

lemma handleSaveBook_update:
  assumes "uniqueShelf st" and "stringIds (books st)"
    and "currentBookId st = Some c" and "c \<noteq> []"
  shows "uniqueShelf (handleSaveBook now writable st) \<and>
         stringIds (books (handleSaveBook now writable st))"
  using assms(3,4)
  by (intro updated_saved [OF assms(1,2), where c = c and now = now and t = "title st"
        and cover = "coverData st" and ps = "pages st" and writable = writable])
     (auto simp: handleSaveBook_def saveBooks_def Let_def)

lemma handleFinish_update:
  assumes "uniqueShelf st" and "stringIds (books st)"
    and "currentBookId st = Some c" and "c \<noteq> []"
  shows "uniqueShelf (handleFinish now writable st) \<and>
         stringIds (books (handleFinish now writable st))"
  using assms(3,4)
  by (intro updated_saved [OF assms(1,2), where c = c and now = now and t = "title st"
        and cover = "coverData st" and ps = "pages st" and writable = writable])
     (auto simp: handleFinish_def saveBooks_def Let_def)

lemma handleDeleteBook_unique:
  assumes "uniqueShelf st" and "stringIds (books st)"
  shows "uniqueShelf (handleDeleteBook i writable st) \<and>
         stringIds (books (handleDeleteBook i writable st))"
proof (rule uniqueShelf_saved [where st = st and writable = writable
      and bs = "filter (\<lambda>b. bookId b \<noteq> Some (JStr i)) (books st)"])
  show "uniqueIds (filter (\<lambda>b. bookId b \<noteq> Some (JStr i)) (books st))"
    using assms(1) by (simp add: uniqueShelf_def uniqueIds_def distinct_map_filter)
  show "stringIds (filter (\<lambda>b. bookId b \<noteq> Some (JStr i)) (books st))"
    using assms(2) by (simp add: stringIds_def list_all_iff)
  show "uniqueIds (loadBooks st)"
    using assms(1) by (simp add: uniqueShelf_def)
qed (simp_all add: handleDeleteBook_def saveBooks_def Let_def)

lemma handleUpdateBooks_unique:
  assumes "uniqueIds bs" and "stringIds bs" and "uniqueIds (loadBooks st)"
  shows "uniqueShelf (handleUpdateBooks writable bs st) \<and>
         stringIds (books (handleUpdateBooks writable bs st))"
  by (rule uniqueShelf_saved [where writable = writable, OF assms])
     (simp_all add: handleUpdateBooks_def saveBooks_def)

lemma handleUploadSingleBook_unique:
  assumes "uniqueShelf st" and "stringIds (books st)"
    and "Some (JStr (toString (fst (env 0)) @ snd (env 0))) \<notin> set (map bookId (books st))"
  shows "uniqueShelf (handleUploadSingleBook f env writable st) \<and>
         stringIds (books (handleUploadSingleBook f env writable st))"
proof (cases "uploadSingleBook f (books st) env")
  case (Inl e)
  with assms show ?thesis by (simp add: handleUploadSingleBook_def)
next
  case (Inr res)
  obtain newBooks imported where res: "res = (newBooks, imported)" by (cases res)
  from assms(3) have fresh: "Some (JStr (newId (env 0))) \<notin> set (map bookId (books st))"
    by (simp add: newId_def)
  from Inr res have nb: "newBooks = imported # books st"
    by (auto simp: uploadSingleBook_def Let_def split: sum.splits if_splits)
  from Inr res fresh have id: "bookId imported \<notin> set (map bookId (books st))"
    by (auto simp: uploadSingleBook_def Let_def existingIds_def bookId_withId
        split: sum.splits if_splits)
  from Inr res have "typeof (bookId imported) = ''string''"
    using validateBook_id
    by (fastforce simp: uploadSingleBook_def Let_def bookId_withId
        split: sum.splits if_splits)
  with assms(2) nb have s: "stringIds newBooks" by (simp add: stringIds_def)
  from assms(1) have u: "uniqueIds (books st)" and l: "uniqueIds (loadBooks st)"
    by (simp_all add: uniqueShelf_def)
  from id nb u have "uniqueIds newBooks"
    by (simp add: uniqueIds_def)
  from handleUpdateBooks_unique [OF this s l] Inr res show ?thesis
    by (simp add: handleUploadSingleBook_def)
qed

lemma handleUploadBookshelf_replace:
  assumes "uniqueShelf st" and "property data ''books'' = Some (JArr cands)"
    and "distinct (map bookId (filter validateBook cands))"
  shows "uniqueShelf (handleUploadBookshelf (Json data) Replace env writable st) \<and>
         (stringIds (books st) \<longrightarrow>
            stringIds (books (handleUploadBookshelf (Json data) Replace env writable st)))"
proof (cases "filter validateBook cands = []")
  case True
  with assms show ?thesis
    by (simp add: handleUploadBookshelf_def uploadBookshelf_books)
next
  case False
  have u: "uniqueIds (filter validateBook cands)" using assms(3) by (simp add: uniqueIds_def)
  have s: "stringIds (filter validateBook cands)"
    by (rule stringIds_valid) (simp add: list_all_iff)
  from assms(1) have l: "uniqueIds (loadBooks st)" by (simp add: uniqueShelf_def)
  from handleUpdateBooks_unique [OF u s l] False assms(2) show ?thesis
    by (simp add: handleUploadBookshelf_def uploadBookshelf_books)
qed

lemma handleUploadBookshelf_merge:
  assumes "uniqueShelf st" and "stringIds (books st)"
    and "property data ''books'' = Some (JArr cands)"
    and "distinct (map bookId (filter validateBook cands))"
    and "distinct (map (\<lambda>j. toString (fst (env j)) @ snd (env j))
           [0..<length (filter validateBook cands)])"
    and "\<forall>j<length (filter validateBook cands).
       Some (JStr (toString (fst (env j)) @ snd (env j))) \<notin> set (map bookId (books st)) \<and>
       Some (JStr (toString (fst (env j)) @ snd (env j)))
         \<notin> set (map bookId (filter validateBook cands))"
  shows "uniqueShelf (handleUploadBookshelf (Json data) Merge env writable st) \<and>
         stringIds (books (handleUploadBookshelf (Json data) Merge env writable st))"
proof (cases "filter validateBook cands = []")
  case True
  with assms show ?thesis
    by (simp add: handleUploadBookshelf_def uploadBookshelf_books)
next
  case False
  let ?valid = "filter validateBook cands"
  let ?merged = "mergeBooks (existingIds (books st)) env 0 ?valid"
  have n: "(\<lambda>j. newId (env j)) = (\<lambda>j. toString (fst (env j)) @ snd (env j))"
    by (simp add: newId_def)
  from assms(1) have "uniqueIds (books st)" and l: "uniqueIds (loadBooks st)"
    by (simp_all add: uniqueShelf_def)
  with assms(4-6) have u: "uniqueIds (books st @ ?merged)"
    by (intro mergeBooks_unique) (simp_all add: n newId_def)
  have "stringIds ?valid"
    by (rule stringIds_valid) (simp add: list_all_iff)
  then have "stringIds ?merged" by (rule stringIds_mergeBooks)
  with assms(2) have s: "stringIds (books st @ ?merged)"
    by (simp add: stringIds_def)
  from handleUpdateBooks_unique [OF u s l] False assms(3) show ?thesis
    by (simp add: handleUploadBookshelf_def uploadBookshelf_books)
qed

text \<open>
  Claim C8, as stated, fails for every operation that adds a book. Saving a new book,
  finishing the editing of a new book and finishing a generation run while the clock reads
  9 add a book with the id \<^verbatim>\<open>"9"\<close> to a collection that holds a book with this id
  already. A single-book import gives the imported book, whose id \<^verbatim>\<open>"x"\<close> is taken,
  the generated id \<^verbatim>\<open>"42k3"\<close>, which another book of the collection has. A bookshelf
  import of a document that holds the same book twice gives the empty collection two
  books of one id, in replace mode and in merge mode. What is stored has the same ids.
\<close>

theorem C8_counterexample:
  "uniqueShelf (drafting [clockBook] None) \<and> toString 9 = ''9'' \<and>
   map bookId (books (handleSaveBook 9 True (drafting [clockBook] None)))
     = [Some (JStr ''9''), Some (JStr ''9'')] \<and>
   map bookId (loadBooks (handleSaveBook 9 True (drafting [clockBook] None)))
     = [Some (JStr ''9''), Some (JStr ''9'')] \<and>
   map bookId (books (handleFinish 9 True (drafting [clockBook] None)))
     = [Some (JStr ''9''), Some (JStr ''9'')] \<and>
   map bookId (loadBooks (handleFinish 9 True (drafting [clockBook] None)))
     = [Some (JStr ''9''), Some (JStr ''9'')] \<and>
   map bookId (books (handleAIGenerateComplete 9 True ''cat''
       \<lparr>cover_image = None, cover_imageScale = 1\<rparr> [] (drafting [clockBook] None)))
     = [Some (JStr ''9''), Some (JStr ''9'')] \<and>
   map bookId (loadBooks (handleAIGenerateComplete 9 True ''cat''
       \<lparr>cover_image = None, cover_imageScale = 1\<rparr> [] (drafting [clockBook] None)))
     = [Some (JStr ''9''), Some (JStr ''9'')] \<and>
   uniqueShelf (shelf [moonBook, tickBook]) \<and> sampleIds 0 = (42, ''k3'') \<and>
   map bookId (books (handleUploadSingleBook (savedFile (downloadSingleBook 9 moonBook))
       sampleIds True (shelf [moonBook, tickBook])))
     = [Some (JStr ''42k3''), Some (JStr ''x''), Some (JStr ''42k3'')] \<and>
   map bookId (loadBooks (handleUploadSingleBook (savedFile (downloadSingleBook 9 moonBook))
       sampleIds True (shelf [moonBook, tickBook])))
     = [Some (JStr ''42k3''), Some (JStr ''x''), Some (JStr ''42k3'')] \<and>
   uniqueShelf (shelf []) \<and>
   books (handleUploadBookshelf (savedFile (downloadBookshelf 9 [moonBook, moonBook])) Replace
            sampleIds True (shelf [])) = [moonBook, moonBook] \<and>
   books (handleUploadBookshelf (savedFile (downloadBookshelf 9 [moonBook, moonBook])) Merge
            sampleIds True (shelf [])) = [moonBook, moonBook] \<and>
   loadBooks (handleUploadBookshelf (savedFile (downloadBookshelf 9 [moonBook, moonBook])) Merge
            sampleIds True (shelf [])) = [moonBook, moonBook] \<and>
   \<not> uniqueIds [moonBook, moonBook]"
proof -
  have ids: "bookId (jsonParse (stringify b)) = Some (JStr i)" if "bookId b = Some (JStr i)"
    for b i
    using that by (simp add: bookId_jsonParse_stringify)
  have c: "bookId clockBook = Some (JStr ''9'')" by (simp add: clockBook_def bookId_def)
  have n: "toString 9 = ''9''" by (simp add: toString_def digits.simps)
  have u1: "uniqueShelf (drafting [clockBook] None)"
    by (simp add: uniqueShelf_def uniqueIds_def drafting_def shelf_def loadBooks_def)
  have save: "map bookId (books (handleSaveBook 9 True (drafting [clockBook] None)))
      = [Some (JStr ''9''), Some (JStr ''9'')]"
    "map bookId (loadBooks (handleSaveBook 9 True (drafting [clockBook] None)))
      = [Some (JStr ''9''), Some (JStr ''9'')]"
    by (simp_all add: handleSaveBook_def drafting_def shelf_def saveBooks_def loadBooks_def
        Let_def ids bookId_newBook c n)
  have finish: "map bookId (books (handleFinish 9 True (drafting [clockBook] None)))
      = [Some (JStr ''9''), Some (JStr ''9'')]"
    "map bookId (loadBooks (handleFinish 9 True (drafting [clockBook] None)))
      = [Some (JStr ''9''), Some (JStr ''9'')]"
    by (simp_all add: handleFinish_def drafting_def shelf_def saveBooks_def loadBooks_def
        Let_def ids bookId_newBook c n)
  have gen: "map bookId (books (handleAIGenerateComplete 9 True ''cat''
       \<lparr>cover_image = None, cover_imageScale = 1\<rparr> [] (drafting [clockBook] None)))
      = [Some (JStr ''9''), Some (JStr ''9'')]"
    "map bookId (loadBooks (handleAIGenerateComplete 9 True ''cat''
       \<lparr>cover_image = None, cover_imageScale = 1\<rparr> [] (drafting [clockBook] None)))
      = [Some (JStr ''9''), Some (JStr ''9'')]"
    by (simp_all add: handleAIGenerateComplete_def drafting_def shelf_def saveBooks_def
        loadBooks_def Let_def ids bookId_newBook c n)
  have u2: "uniqueShelf (shelf [moonBook, tickBook])"
    by (simp add: uniqueShelf_def uniqueIds_def shelf_def loadBooks_def moonBook_id tickBook_id)
  have up: "uploadSingleBook (savedFile (downloadSingleBook 9 moonBook)) [moonBook, tickBook]
      sampleIds = Inr ([withId moonBook ''42k3'', moonBook, tickBook], withId moonBook ''42k3'')"
    by (simp add: savedFile_downloadSingleBook jsonParse_stringify_moonBook
        uploadSingleBook_candidate candidateBook_def validateBook_truthy moonBook_valid
        existingIds_def sampleIds_0)
  have single: "map bookId (books (handleUploadSingleBook
        (savedFile (downloadSingleBook 9 moonBook)) sampleIds True (shelf [moonBook, tickBook])))
      = [Some (JStr ''42k3''), Some (JStr ''x''), Some (JStr ''42k3'')]"
    "map bookId (loadBooks (handleUploadSingleBook
        (savedFile (downloadSingleBook 9 moonBook)) sampleIds True (shelf [moonBook, tickBook])))
      = [Some (JStr ''42k3''), Some (JStr ''x''), Some (JStr ''42k3'')]"
    by (simp_all add: handleUploadSingleBook_def shelf_def up handleUpdateBooks_def
        saveBooks_def loadBooks_def ids bookId_withId moonBook_id tickBook_id)
  have u3: "uniqueShelf (shelf [])"
    by (simp add: uniqueShelf_def uniqueIds_def shelf_def loadBooks_def)
  have f: "savedFile (downloadBookshelf 9 [moonBook, moonBook])
      = Json (bookshelfExport 9 [moonBook, moonBook])"
    by (simp add: savedFile_def jsonParse_downloadBookshelf jsonParse_stringify_moonBook)
  have shelf: "books (handleUploadBookshelf (savedFile (downloadBookshelf 9 [moonBook, moonBook]))
        Replace sampleIds True (shelf [])) = [moonBook, moonBook]"
    "books (handleUploadBookshelf (savedFile (downloadBookshelf 9 [moonBook, moonBook]))
        Merge sampleIds True (shelf [])) = [moonBook, moonBook]"
    "loadBooks (handleUploadBookshelf (savedFile (downloadBookshelf 9 [moonBook, moonBook]))
        Merge sampleIds True (shelf [])) = [moonBook, moonBook]"
    by (simp_all add: f handleUploadBookshelf_def
        uploadBookshelf_books [OF property_bookshelfExport] moonBook_valid
        handleUpdateBooks_def saveBooks_def loadBooks_def shelf_def existingIds_def
        jsonParse_stringify_moonBook)
  have d: "\<not> uniqueIds [moonBook, moonBook]" by (simp add: uniqueIds_def)
  have e: "sampleIds 0 = (42, ''k3'')" by (simp add: sampleIds_def)
  from u1 n save finish gen u2 e single u3 shelf d show ?thesis by simp
qed

text \<open>
  Claim C8, amended. The code gives a new book the clock reading as id, and an imported
  book that collides a generated id, the clock reading followed by a random suffix, and
  compares neither with anything. So the operations that add a book keep the ids of the
  collection unique, shown and stored, under these conditions, none of which the code
  checks: for saving a new book, for finishing the editing of a new book and for
  finishing a generation run, the clock reading is not yet the id of a book; for a
  single-book import, the generated id is not yet the id of a book; for a bookshelf
  import, the valid books of the document have different ids and, when merging, the
  generated ids differ from each other and from the ids of the collection and of the
  document. Saving or finishing a book that is in the collection, and deleting a book,
  keep the ids unique without a condition. An import that fails changes nothing. The ids
  of the collection are taken to be strings, as the type \<^verbatim>\<open>Book\<close> says; every
  operation keeps them so.
\<close>

theorem C8_unique_ids_preserved:
  "(uniqueShelf st \<and> stringIds (books st) \<and>
    (currentBookId st = None \<or> currentBookId st = Some []) \<and>
    Some (JStr (toString now)) \<notin> set (map bookId (books st)) \<longrightarrow>
      uniqueShelf (handleSaveBook now writable st) \<and>
      stringIds (books (handleSaveBook now writable st)) \<and>
      uniqueShelf (handleFinish now writable st) \<and>
      stringIds (books (handleFinish now writable st))) \<and>
   (uniqueShelf st \<and> stringIds (books st) \<and>
    Some (JStr (toString now)) \<notin> set (map bookId (books st)) \<longrightarrow>
      uniqueShelf (handleAIGenerateComplete now writable t cover ps st) \<and>
      stringIds (books (handleAIGenerateComplete now writable t cover ps st))) \<and>
   (uniqueShelf st \<and> stringIds (books st) \<and>
    Some (JStr (toString (fst (env 0)) @ snd (env 0))) \<notin> set (map bookId (books st)) \<longrightarrow>
      uniqueShelf (handleUploadSingleBook f env writable st) \<and>
      stringIds (books (handleUploadSingleBook f env writable st))) \<and>
   (uniqueShelf st \<and> stringIds (books st) \<and> property data ''books'' = Some (JArr cands) \<and>
    distinct (map bookId (filter validateBook cands)) \<longrightarrow>
      uniqueShelf (handleUploadBookshelf (Json data) Replace env writable st) \<and>
      stringIds (books (handleUploadBookshelf (Json data) Replace env writable st))) \<and>
   (uniqueShelf st \<and> stringIds (books st) \<and> property data ''books'' = Some (JArr cands) \<and>
    distinct (map bookId (filter validateBook cands)) \<and>
    distinct (map (\<lambda>j. toString (fst (env j)) @ snd (env j))
      [0..<length (filter validateBook cands)]) \<and>
    (\<forall>j<length (filter validateBook cands).
       Some (JStr (toString (fst (env j)) @ snd (env j))) \<notin> set (map bookId (books st)) \<and>
       Some (JStr (toString (fst (env j)) @ snd (env j)))
         \<notin> set (map bookId (filter validateBook cands))) \<longrightarrow>
      uniqueShelf (handleUploadBookshelf (Json data) Merge env writable st) \<and>
      stringIds (books (handleUploadBookshelf (Json data) Merge env writable st))) \<and>
   (uniqueShelf st \<and> stringIds (books st) \<and> currentBookId st = Some c \<and> c \<noteq> [] \<longrightarrow>
      uniqueShelf (handleSaveBook now writable st) \<and>
      stringIds (books (handleSaveBook now writable st)) \<and>
      uniqueShelf (handleFinish now writable st) \<and>
      stringIds (books (handleFinish now writable st))) \<and>
   (uniqueShelf st \<and> stringIds (books st) \<longrightarrow>
      uniqueShelf (handleDeleteBook i writable st) \<and>
      stringIds (books (handleDeleteBook i writable st))) \<and>
   (uploadBookshelf f (books st) m env = Inl err \<longrightarrow>
      handleUploadBookshelf f m env writable st = st) \<and>
   (uploadSingleBook f (books st) env = Inl err \<longrightarrow>
      handleUploadSingleBook f env writable st = st)"
proof (intro conjI impI)
  assume h: "uniqueShelf st \<and> stringIds (books st) \<and>
    (currentBookId st = None \<or> currentBookId st = Some []) \<and>
    Some (JStr (toString now)) \<notin> set (map bookId (books st))"
  then have a: "uniqueShelf st" "stringIds (books st)"
    "currentBookId st = None \<or> currentBookId st = Some []"
    "Some (JStr (toString now)) \<notin> set (map bookId (books st))"
    by simp_all
  from handleSaveBook_new [OF a] show "uniqueShelf (handleSaveBook now writable st)"
    "stringIds (books (handleSaveBook now writable st))" by simp_all
  from handleFinish_new [OF a] show "uniqueShelf (handleFinish now writable st)"
    "stringIds (books (handleFinish now writable st))" by simp_all
next
  assume "uniqueShelf st \<and> stringIds (books st) \<and>
    Some (JStr (toString now)) \<notin> set (map bookId (books st))"
  then have a: "uniqueShelf st" "stringIds (books st)"
    "Some (JStr (toString now)) \<notin> set (map bookId (books st))"
    by simp_all
  from handleAIGenerateComplete_new [OF a]
  show "uniqueShelf (handleAIGenerateComplete now writable t cover ps st)"
    "stringIds (books (handleAIGenerateComplete now writable t cover ps st))" by simp_all
next
  assume "uniqueShelf st \<and> stringIds (books st) \<and>
    Some (JStr (toString (fst (env 0)) @ snd (env 0))) \<notin> set (map bookId (books st))"
  then have a: "uniqueShelf st" "stringIds (books st)"
    "Some (JStr (toString (fst (env 0)) @ snd (env 0))) \<notin> set (map bookId (books st))"
    by simp_all
  from handleUploadSingleBook_unique [where env = env, OF a]
  show "uniqueShelf (handleUploadSingleBook f env writable st)"
    "stringIds (books (handleUploadSingleBook f env writable st))" by simp_all
next
  assume "uniqueShelf st \<and> stringIds (books st) \<and>
    property data ''books'' = Some (JArr cands) \<and>
    distinct (map bookId (filter validateBook cands))"
  then have a: "uniqueShelf st" "property data ''books'' = Some (JArr cands)"
    "distinct (map bookId (filter validateBook cands))" and s: "stringIds (books st)"
    by simp_all
  from handleUploadBookshelf_replace [OF a] s
  show "uniqueShelf (handleUploadBookshelf (Json data) Replace env writable st)"
    "stringIds (books (handleUploadBookshelf (Json data) Replace env writable st))"
    by simp_all
next
  assume "uniqueShelf st \<and> stringIds (books st) \<and>
    property data ''books'' = Some (JArr cands) \<and>
    distinct (map bookId (filter validateBook cands)) \<and>
    distinct (map (\<lambda>j. toString (fst (env j)) @ snd (env j))
      [0..<length (filter validateBook cands)]) \<and>
    (\<forall>j<length (filter validateBook cands).
       Some (JStr (toString (fst (env j)) @ snd (env j))) \<notin> set (map bookId (books st)) \<and>
       Some (JStr (toString (fst (env j)) @ snd (env j)))
         \<notin> set (map bookId (filter validateBook cands)))"
  then have a: "uniqueShelf st" "stringIds (books st)"
    "property data ''books'' = Some (JArr cands)"
    "distinct (map bookId (filter validateBook cands))"
    "distinct (map (\<lambda>j. toString (fst (env j)) @ snd (env j))
      [0..<length (filter validateBook cands)])"
    "\<forall>j<length (filter validateBook cands).
       Some (JStr (toString (fst (env j)) @ snd (env j))) \<notin> set (map bookId (books st)) \<and>
       Some (JStr (toString (fst (env j)) @ snd (env j)))
         \<notin> set (map bookId (filter validateBook cands))"
    by simp_all
  from handleUploadBookshelf_merge [where env = env, OF a]
  show "uniqueShelf (handleUploadBookshelf (Json data) Merge env writable st)"
    "stringIds (books (handleUploadBookshelf (Json data) Merge env writable st))"
    by simp_all
next
  assume "uniqueShelf st \<and> stringIds (books st) \<and> currentBookId st = Some c \<and> c \<noteq> []"
  then have a: "uniqueShelf st" "stringIds (books st)" "currentBookId st = Some c" "c \<noteq> []"
    by simp_all
  from handleSaveBook_update [OF a] show "uniqueShelf (handleSaveBook now writable st)"
    "stringIds (books (handleSaveBook now writable st))" by simp_all
  from handleFinish_update [OF a] show "uniqueShelf (handleFinish now writable st)"
    "stringIds (books (handleFinish now writable st))" by simp_all
next
  assume "uniqueShelf st \<and> stringIds (books st)"
  then have a: "uniqueShelf st" "stringIds (books st)" by simp_all
  from handleDeleteBook_unique [OF a] show "uniqueShelf (handleDeleteBook i writable st)"
    "stringIds (books (handleDeleteBook i writable st))" by simp_all
next
  assume "uploadBookshelf f (books st) m env = Inl err"
  then show "handleUploadBookshelf f m env writable st = st"
    by (simp add: handleUploadBookshelf_def)
next
  assume "uploadSingleBook f (books st) env = Inl err"
  then show "handleUploadSingleBook f env writable st = st"
    by (simp add: handleUploadSingleBook_def)
qed

theorem C8_unique_ids_witness:
  "uniqueShelf (drafting [moonBook] None) \<and> stringIds (books (drafting [moonBook] None)) \<and>
   currentBookId (drafting [moonBook] None) = None \<and>
   Some (JStr (toString 9)) \<notin> set (map bookId (books (drafting [moonBook] None))) \<and>
   uniqueShelf (handleSaveBook 9 True (drafting [moonBook] None)) \<and>
   uniqueShelf (handleFinish 9 True (drafting [moonBook] None)) \<and>
   uniqueShelf (handleAIGenerateComplete 9 True ''cat''
                  \<lparr>cover_image = None, cover_imageScale = 1\<rparr> [] (drafting [moonBook] None)) \<and>
   Some (JStr (toString (fst (sampleIds 0)) @ snd (sampleIds 0)))
     \<notin> set (map bookId (books (drafting [moonBook] None))) \<and>
   uniqueShelf (handleUploadSingleBook (savedFile (downloadSingleBook 9 moonBook)) sampleIds True
                  (drafting [moonBook] None)) \<and>
   property (jsonParse (downloadBookshelf 9 [moonBook, starBook])) ''books''
     = Some (JArr [moonBook, starBook]) \<and>
   map bookId (filter validateBook [moonBook, starBook]) = [Some (JStr ''x''), Some (JStr ''y'')] \<and>
   map (\<lambda>j. toString (fst (sampleIds j)) @ snd (sampleIds j)) [0..<2] = [''42k3'', ''43k3''] \<and>
   uniqueShelf (handleUploadBookshelf (savedFile (downloadBookshelf 9 [moonBook, starBook]))
                  Replace sampleIds True (drafting [moonBook] None)) \<and>
   uniqueShelf (handleUploadBookshelf (savedFile (downloadBookshelf 9 [moonBook, starBook]))
                  Merge sampleIds True (drafting [moonBook] None)) \<and>
   uniqueShelf (drafting [moonBook] (Some ''x'')) \<and>
   stringIds (books (drafting [moonBook] (Some ''x''))) \<and>
   currentBookId (drafting [moonBook] (Some ''x'')) = Some ''x'' \<and>
   uniqueShelf (handleSaveBook 9 True (drafting [moonBook] (Some ''x''))) \<and>
   uniqueShelf (handleFinish 9 True (drafting [moonBook] (Some ''x''))) \<and>
   uniqueShelf (handleDeleteBook ''x'' True (drafting [moonBook] None)) \<and>
   uploadBookshelf Unreadable (books (drafting [moonBook] None)) Merge sampleIds
     = Inl FileReadFailed \<and>
   handleUploadBookshelf Unreadable Merge sampleIds True (drafting [moonBook] None)
     = drafting [moonBook] None \<and>
   uploadSingleBook Malformed (books (drafting [moonBook] None)) sampleIds
     = Inl JsonSyntaxError \<and>
   handleUploadSingleBook Malformed sampleIds True (drafting [moonBook] None)
     = drafting [moonBook] None"
proof -
  let ?st = "drafting [moonBook] None"
  let ?ed = "drafting [moonBook] (Some ''x'')"
  let ?data = "jsonParse (downloadBookshelf 9 [moonBook, starBook])"
  have bs: "books ?st = [moonBook]" "books ?ed = [moonBook]"
    by (simp_all add: drafting_def shelf_def)
  have u: "uniqueShelf ?st" "uniqueShelf ?ed"
    by (simp_all add: uniqueShelf_def uniqueIds_def drafting_def shelf_def loadBooks_def)
  have s: "stringIds (books ?st)" "stringIds (books ?ed)"
    by (simp_all add: bs stringIds_def moonBook_id)
  have c: "currentBookId ?st = None" "currentBookId ?ed = Some ''x''"
    by (simp_all add: drafting_def shelf_def)
  have n: "Some (JStr (toString 9)) \<notin> set (map bookId (books ?st))"
    by (simp add: bs moonBook_id toString_def digits.simps)
  have i0: "toString (fst (sampleIds 0)) @ snd (sampleIds 0) = ''42k3''"
    using sampleIds_0 by (simp add: newId_def)
  have i1: "toString (fst (sampleIds 1)) @ snd (sampleIds 1) = ''43k3''"
    "toString (fst (sampleIds (Suc 0))) @ snd (sampleIds (Suc 0)) = ''43k3''"
    by (simp_all add: sampleIds_def toString_def digits.simps)
  have i: "Some (JStr (toString (fst (sampleIds 0)) @ snd (sampleIds 0)))
      \<notin> set (map bookId (books ?st))"
    "Some (JStr (toString (fst (sampleIds 1)) @ snd (sampleIds 1)))
      \<notin> set (map bookId (books ?st))"
    by (simp_all only: i0 i1 bs) (simp_all add: moonBook_id)
  have f: "savedFile (downloadBookshelf 9 [moonBook, starBook]) = Json ?data"
    by (simp add: savedFile_def)
  have p: "property ?data ''books'' = Some (JArr [moonBook, starBook])"
    by (simp add: jsonParse_downloadBookshelf jsonParse_stringify_moonBook
        jsonParse_stringify_starBook property_bookshelfExport)
  have v: "filter validateBook [moonBook, starBook] = [moonBook, starBook]"
    by (simp add: moonBook_valid starBook_valid)
  have ids: "map bookId (filter validateBook [moonBook, starBook])
      = [Some (JStr ''x''), Some (JStr ''y'')]"
    by (simp only: v) (simp add: moonBook_id starBook_id)
  have d: "distinct (map bookId (filter validateBook [moonBook, starBook]))"
    by (simp only: ids) simp
  have g: "map (\<lambda>j. toString (fst (sampleIds j)) @ snd (sampleIds j)) [0..<2]
      = [''42k3'', ''43k3'']"
    by (simp add: upt_rec [of 0] upt_rec [of 1] i0 i1)
       (simp add: upt_rec i0 i1)
  have l: "length (filter validateBook [moonBook, starBook]) = 2" by (simp only: v) simp
  have g': "distinct (map (\<lambda>j. toString (fst (sampleIds j)) @ snd (sampleIds j))
      [0..<length (filter validateBook [moonBook, starBook])])"
    by (simp only: l g) simp
  have fr: "\<forall>j<length (filter validateBook [moonBook, starBook]).
       Some (JStr (toString (fst (sampleIds j)) @ snd (sampleIds j)))
         \<notin> set (map bookId (books ?st)) \<and>
       Some (JStr (toString (fst (sampleIds j)) @ snd (sampleIds j)))
         \<notin> set (map bookId (filter validateBook [moonBook, starBook]))"
  proof (intro allI impI)
    fix j assume "j < length (filter validateBook [moonBook, starBook])"
    with l have "j = 0 \<or> j = 1" by auto
    then show "Some (JStr (toString (fst (sampleIds j)) @ snd (sampleIds j)))
         \<notin> set (map bookId (books ?st)) \<and>
       Some (JStr (toString (fst (sampleIds j)) @ snd (sampleIds j)))
         \<notin> set (map bookId (filter validateBook [moonBook, starBook]))"
      using i by (auto simp only: ids i0 i1) simp_all
  qed
  have e1: "uploadBookshelf Unreadable (books ?st) Merge sampleIds = Inl FileReadFailed"
    by (simp add: uploadBookshelf_def parseFile_def)
  have e2: "uploadSingleBook Malformed (books ?st) sampleIds = Inl JsonSyntaxError"
    by (simp add: uploadSingleBook_def parseFile_def)
  have x: "''x'' \<noteq> []" by simp
  note main = C8_unique_ids_preserved
         [where st = ?st and now = 9 and writable = True and t = "''cat''"
            and cover = "\<lparr>cover_image = None, cover_imageScale = 1\<rparr>" and ps = "[]"
            and env = sampleIds and f = "savedFile (downloadSingleBook 9 moonBook)"
            and data = ?data and cands = "[moonBook, starBook]" and i = "''x''"]
  note r1 = main [THEN conjunct2]
  note r2 = r1 [THEN conjunct2]
  note r3 = r2 [THEN conjunct2]
  note r4 = r3 [THEN conjunct2]
  note r5 = r4 [THEN conjunct2]
  note r6 = r5 [THEN conjunct2]
  from main [THEN conjunct1] u(1) s(1) c(1) n
  have save: "uniqueShelf (handleSaveBook 9 True ?st)" "uniqueShelf (handleFinish 9 True ?st)"
    by simp_all
  from r1 [THEN conjunct1] u(1) s(1) n
  have gen: "uniqueShelf (handleAIGenerateComplete 9 True ''cat''
                  \<lparr>cover_image = None, cover_imageScale = 1\<rparr> [] ?st)"
    by simp
  from r2 [THEN conjunct1] u(1) s(1) i(1)
  have single: "uniqueShelf (handleUploadSingleBook (savedFile (downloadSingleBook 9 moonBook))
      sampleIds True ?st)"
    by simp
  from r3 [THEN conjunct1] u(1) s(1) p d
  have repl: "uniqueShelf (handleUploadBookshelf (Json ?data) Replace sampleIds True ?st)"
    by simp
  from r4 [THEN conjunct1] u(1) s(1) p d g' fr
  have merge: "uniqueShelf (handleUploadBookshelf (Json ?data) Merge sampleIds True ?st)"
    by simp
  from r6 [THEN conjunct1] u(1) s(1)
  have del: "uniqueShelf (handleDeleteBook ''x'' True ?st)"
    by simp
  note edit = C8_unique_ids_preserved
         [where st = ?ed and now = 9 and writable = True and c = "''x''",
          THEN conjunct2, THEN conjunct2, THEN conjunct2, THEN conjunct2, THEN conjunct2,
          THEN conjunct1]
  from edit u(2) s(2) c(2)
  have upd: "uniqueShelf (handleSaveBook 9 True ?ed)" "uniqueShelf (handleFinish 9 True ?ed)"
    by simp_all
  note unread = C8_unique_ids_preserved
         [where st = ?st and writable = True and env = sampleIds and f = Unreadable
            and m = Merge and err = FileReadFailed,
          THEN conjunct2, THEN conjunct2, THEN conjunct2, THEN conjunct2, THEN conjunct2,
          THEN conjunct2, THEN conjunct2, THEN conjunct1]
  from unread e1
  have un: "handleUploadBookshelf Unreadable Merge sampleIds True ?st = ?st"
    by simp
  note malformed = C8_unique_ids_preserved
         [where st = ?st and writable = True and env = sampleIds and f = Malformed
            and err = JsonSyntaxError,
          THEN conjunct2, THEN conjunct2, THEN conjunct2, THEN conjunct2, THEN conjunct2,
          THEN conjunct2, THEN conjunct2, THEN conjunct2]
  from malformed e2
  have mal: "handleUploadSingleBook Malformed sampleIds True ?st = ?st"
    by simp
  from u s c n i(1) p ids g save gen single repl merge del upd e1 e2 un mal
  show ?thesis unfolding f by simp
qed

end
